theory Spec2Isabelle
  imports Main
begin

section \<open>JavaScript values and string primitives\<close>

text \<open>
  The data layer is TypeScript on the Node runtime. A thrown value is either an
  \<^verbatim>\<open>Error\<close> instance, with its \<^verbatim>\<open>name\<close> and \<^verbatim>\<open>message\<close>, or some other value (the
  \<^verbatim>\<open>instanceof Error\<close> tests of the source distinguish the two). A function that
  can throw returns \<open>exn + 'a\<close>, with \<open>Inl\<close> the thrown value.

  Strings are ASCII text: one \<^typ>\<open>char\<close> per character. The primitives below are the
  ECMAScript ones restricted to ASCII (white space is TAB, LF, VT, FF, CR and SPACE;
  case conversion touches the 26 letters only).
\<close>

datatype exn = Error (ename: string) (emessage: string) | NonError

definition newError :: "string \<Rightarrow> exn" where
  "newError msg = Error ''Error'' msg"

definition isSpace :: "char \<Rightarrow> bool" where
  "isSpace c \<longleftrightarrow> c \<in> set [CHR 0x09, CHR 0x0A, CHR 0x0B, CHR 0x0C, CHR 0x0D, CHR '' '']"

definition isDigit :: "char \<Rightarrow> bool" where
  "isDigit c \<longleftrightarrow> c \<in> set ''0123456789''"

definition isLower :: "char \<Rightarrow> bool" where
  "isLower c \<longleftrightarrow> c \<in> set ''abcdefghijklmnopqrstuvwxyz''"

definition lowerChar :: "char \<Rightarrow> char" where
  "lowerChar c =
    (case map_of (zip ''ABCDEFGHIJKLMNOPQRSTUVWXYZ'' ''abcdefghijklmnopqrstuvwxyz'') c of
       None \<Rightarrow> c | Some l \<Rightarrow> l)"

definition upperChar :: "char \<Rightarrow> char" where
  "upperChar c =
    (case map_of (zip ''abcdefghijklmnopqrstuvwxyz'' ''ABCDEFGHIJKLMNOPQRSTUVWXYZ'') c of
       None \<Rightarrow> c | Some u \<Rightarrow> u)"

definition toLowerCase :: "string \<Rightarrow> string" where
  "toLowerCase s = map lowerChar s"

definition toUpperCase :: "string \<Rightarrow> string" where
  "toUpperCase s = map upperChar s"

definition trim :: "string \<Rightarrow> string" where
  "trim s = rev (dropWhile isSpace (rev (dropWhile isSpace s)))"

definition digitVal :: "char \<Rightarrow> int" where
  "digitVal c = (case map_of (zip ''0123456789'' [0, 1, 2, 3, 4, 5, 6, 7, 8, 9]) c of
                  None \<Rightarrow> 0 | Some d \<Rightarrow> d)"

text \<open>\<^verbatim>\<open>parseInt\<close> on a string of decimal digits (the only strings the source gives it).\<close>

definition parseInt :: "string \<Rightarrow> int" where
  "parseInt s = foldl (\<lambda>n c. 10 * n + digitVal c) 0 s"

definition digitChar :: "nat \<Rightarrow> char" where
  "digitChar d = ''0123456789'' ! d"

text \<open>\<^verbatim>\<open>Number.prototype.toString\<close> on a non-negative integer: its decimal digits.\<close>

fun natToString :: "nat \<Rightarrow> string" where
  "natToString n = (if n < 10 then [digitChar n] else natToString (n div 10) @ [digitChar (n mod 10)])"

declare natToString.simps [simp del]

definition padStart :: "nat \<Rightarrow> char \<Rightarrow> string \<Rightarrow> string" where
  "padStart n c s = replicate (n - length s) c @ s"

section \<open>Time normalisation (event.model.ts, normalizeTime)\<close>

text \<open>
  The match of \<^verbatim>\<open>/^(\d{1,2}):(\d{2})(\s*(AM|PM))?$/i\<close> against a whole string: the result
  holds the capture groups 1, 2 and 4 (group 4 as it stands in the input, or nothing).
  No digit is a colon, so group 1 is what stands before the first colon.
\<close>

definition timeRegex :: "string \<Rightarrow> (string \<times> string \<times> string option) option" where
  "timeRegex s =
    (let g1 = takeWhile (\<lambda>c. c \<noteq> CHR '':'') s;
         r1 = dropWhile (\<lambda>c. c \<noteq> CHR '':'') s
     in if r1 = [] then None
        else if \<not> ((length g1 = 1 \<or> length g1 = 2) \<and> list_all isDigit g1) then None
        else
          let g2 = take 2 (tl r1); r2 = drop 2 (tl r1)
          in if \<not> (length g2 = 2 \<and> list_all isDigit g2) then None
             else if r2 = [] then Some (g1, g2, None)
             else
               let g4 = dropWhile isSpace r2
               in if toUpperCase g4 = ''AM'' \<or> toUpperCase g4 = ''PM''
                  then Some (g1, g2, Some g4) else None)"

definition normalizeTime :: "string \<Rightarrow> exn + string" where
  "normalizeTime timeString =
    (case timeRegex (trim timeString) of
       None \<Rightarrow> Inl (newError ''Invalid time format. Use HH:MM or HH:MM AM/PM'')
     | Some (g1, minutes, g4) \<Rightarrow>
         let hours0 = parseInt g1;
             period = map_option toUpperCase g4;
             hours1 = (if period = Some ''PM'' \<and> hours0 \<noteq> 12 then hours0 + 12 else hours0);
             hours = (if period = Some ''AM'' \<and> hours1 = 12 then 0 else hours1)
         in if hours < 0 \<or> hours > 23 \<or> parseInt minutes < 0 \<or> parseInt minutes > 59
            then Inl (newError ''Invalid time values'')
            else Inr (padStart 2 (CHR ''0'') (natToString (nat hours)) @ '':'' @ minutes))"

section \<open>Slug generation (event.model.ts, generateSlug and generateUniqueSlug)\<close>

text \<open>The character class \<^verbatim>\<open>[a-z0-9\s-]\<close> of the first replacement.\<close>

definition slugChar :: "char \<Rightarrow> bool" where
  "slugChar c \<longleftrightarrow> isLower c \<or> isDigit c \<or> isSpace c \<or> c = CHR ''-''"

text \<open>\<^verbatim>\<open>.replace(/\s+/g, '-')\<close>: every maximal run of white space becomes one hyphen
  (the hyphen is written when the last character of the run is read).\<close>

fun replaceSpaces :: "string \<Rightarrow> string" where
  "replaceSpaces [] = []"
| "replaceSpaces [c] = [if isSpace c then CHR ''-'' else c]"
| "replaceSpaces (c # d # cs) =
     (if isSpace c \<and> isSpace d then replaceSpaces (d # cs)
      else (if isSpace c then CHR ''-'' else c) # replaceSpaces (d # cs))"

text \<open>\<^verbatim>\<open>.replace(/-+/g, '-')\<close>: every maximal run of hyphens becomes one hyphen.\<close>

fun collapseHyphens :: "string \<Rightarrow> string" where
  "collapseHyphens [] = []"
| "collapseHyphens [c] = [c]"
| "collapseHyphens (c # d # cs) =
     (if c = CHR ''-'' \<and> d = CHR ''-'' then collapseHyphens (d # cs)
      else c # collapseHyphens (d # cs))"

text \<open>\<^verbatim>\<open>.replace(/^-|-$/g, '')\<close>: a hyphen at the start is removed, then a hyphen at
  the end of what is left (the global flag lets both alternatives match, each once).\<close>

definition stripHyphens :: "string \<Rightarrow> string" where
  "stripHyphens s =
    (let s1 = (case s of [] \<Rightarrow> [] | c # cs \<Rightarrow> if c = CHR ''-'' then cs else s)
     in if s1 \<noteq> [] \<and> last s1 = CHR ''-'' then butlast s1 else s1)"

definition generateSlug :: "string \<Rightarrow> string" where
  "generateSlug titleText =
     stripHyphens (collapseHyphens (replaceSpaces (filter slugChar (trim (toLowerCase titleText)))))"

subsection \<open>Documents, the Event collection and the lookup\<close>

text \<open>
  A stored document carries its \<^verbatim>\<open>_id\<close> (here \<open>oid\<close>) and the two time stamps of the
  \<^verbatim>\<open>timestamps\<close> option. An ObjectId is modelled by the text \<^verbatim>\<open>toString()\<close> gives it, its
  hexadecimal digits in lower case. Dates are milliseconds since the epoch. An Event
  document is the interface \<^verbatim>\<open>IEvent\<close>.
\<close>

type_synonym objectid = string

text \<open>
  An identifier handed to the booking operations has the type
  \<^verbatim>\<open>string | Types.ObjectId\<close>. \<^verbatim>\<open>new Types.ObjectId(s)\<close> reads a string of 24 hexadecimal
  digits, in either case, and throws on any other string. A query by \<^verbatim>\<open>_id\<close> casts its
  argument first: an ObjectId is taken as it is, a string goes through the constructor,
  and where that throws the query fails with the CastError of the driver, which names
  the value, the path and the model. \<^verbatim>\<open>${id}\<close> in a template is the string itself, or
  the text of the ObjectId.
\<close>

datatype id_arg = IdString string | IdObject objectid

definition isHexDigit :: "char \<Rightarrow> bool" where
  "isHexDigit c \<longleftrightarrow> c \<in> set ''0123456789abcdefABCDEF''"

definition newObjectId :: "string \<Rightarrow> objectid option" where
  "newObjectId s = (if length s = 24 \<and> list_all isHexDigit s then Some (toLowerCase s) else None)"

definition bsonError :: exn where
  "bsonError =
     Error ''BSONError'' ''input must be a 24 character hex string, 12 byte Uint8Array, or an integer''"

definition castError :: "string \<Rightarrow> string \<Rightarrow> exn" where
  "castError v modelName =
     Error ''CastError''
       (''Cast to ObjectId failed for value '' @ [CHR 0x22] @ v @ [CHR 0x22] @
        '' (type string) at path '' @ [CHR 0x22] @ ''_id'' @ [CHR 0x22] @
        '' for model '' @ [CHR 0x22] @ modelName @ [CHR 0x22])"

definition castObjectId :: "string \<Rightarrow> id_arg \<Rightarrow> exn + objectid" where
  "castObjectId modelName a =
     (case a of
        IdObject i \<Rightarrow> Inr i
      | IdString s \<Rightarrow>
          (case newObjectId s of None \<Rightarrow> Inl (castError s modelName) | Some i \<Rightarrow> Inr i))"

definition idText :: "id_arg \<Rightarrow> string" where
  "idText a = (case a of IdString s \<Rightarrow> s | IdObject i \<Rightarrow> i)"

record document =
  oid :: objectid
  createdAt :: int
  updatedAt :: int

record event = document +
  title :: string
  slug :: string
  description :: string
  overview :: string
  image' :: string
  venue :: string
  location :: string
  date :: string
  time :: string
  mode :: string
  audience :: string
  agenda :: "string list"
  organizer :: string
  tags :: "string list"

text \<open>The two filters \<^verbatim>\<open>generateUniqueSlug\<close> builds: \<^verbatim>\<open>{ slug }\<close> and
  \<^verbatim>\<open>{ slug, _id: { $ne: excludeId } }\<close>.\<close>

datatype event_query = BySlug string | BySlugNotId string objectid

fun matchesQuery :: "event_query \<Rightarrow> event \<Rightarrow> bool" where
  "matchesQuery (BySlug s) e \<longleftrightarrow> slug e = s"
| "matchesQuery (BySlugNotId s i) e \<longleftrightarrow> slug e = s \<and> oid e \<noteq> i"

text \<open>\<^verbatim>\<open>Event.findOne(query).select('_id').lean()\<close> on a collection held in memory: the
  \<^verbatim>\<open>_id\<close> of the first matching document, or nothing. A collection in memory never
  fails; \<^verbatim>\<open>generateUniqueSlug\<close> is written against any lookup, failing ones included.\<close>

definition findOneId :: "event list \<Rightarrow> event_query \<Rightarrow> exn + objectid option" where
  "findOneId events q = Inr (map_option oid (find (matchesQuery q) events))"

definition MAX_ATTEMPTS :: nat where
  "MAX_ATTEMPTS = 100"

definition slugQuery :: "objectid option \<Rightarrow> string \<Rightarrow> event_query" where
  "slugQuery excludeId s = (case excludeId of Some i \<Rightarrow> BySlugNotId s i | None \<Rightarrow> BySlug s)"

definition slugLookupFailed :: "exn \<Rightarrow> exn" where
  "slugLookupFailed error =
     (case error of
        Error n msg \<Rightarrow> newError (''Failed to generate unique slug: '' @ msg)
      | NonError \<Rightarrow> newError ''Failed to generate unique slug: Unknown error'')"

text \<open>
  The \<^verbatim>\<open>for\<close> loop of \<^verbatim>\<open>generateUniqueSlug\<close>, from the state (attempt, slug, counter).
  The result comes with the queries sent to the database, in order.
\<close>

function slugLoop ::
  "(event_query \<Rightarrow> exn + objectid option) \<Rightarrow> string \<Rightarrow> objectid option \<Rightarrow>
     nat \<Rightarrow> string \<Rightarrow> nat \<Rightarrow> (exn + string) \<times> event_query list" where
  "slugLoop findOne baseSlug excludeId attempt s counter =
     (if attempt < MAX_ATTEMPTS then
        (case findOne (slugQuery excludeId s) of
           Inl error \<Rightarrow> (Inl (slugLookupFailed error), [slugQuery excludeId s])
         | Inr None \<Rightarrow> (Inr s, [slugQuery excludeId s])
         | Inr (Some existingEvent) \<Rightarrow>
             (case slugLoop findOne baseSlug excludeId (attempt + 1)
                     (baseSlug @ ''-'' @ natToString counter) (counter + 1) of
                (r, qs) \<Rightarrow> (r, slugQuery excludeId s # qs)))
      else (Inl (newError (''Unable to generate unique slug after '' @
                   natToString MAX_ATTEMPTS @ '' attempts'')), []))"
  by pat_completeness auto
termination
  by (relation "measure (\<lambda>(findOne, baseSlug, excludeId, attempt, s, counter). MAX_ATTEMPTS - attempt)") auto

declare slugLoop.simps [simp del]

definition generateUniqueSlugTraced ::
  "(event_query \<Rightarrow> exn + objectid option) \<Rightarrow> string \<Rightarrow> objectid option \<Rightarrow>
     (exn + string) \<times> event_query list" where
  "generateUniqueSlugTraced findOne titleText excludeId =
     (let baseSlug = generateSlug titleText in slugLoop findOne baseSlug excludeId 0 baseSlug 1)"

definition generateUniqueSlug ::
  "(event_query \<Rightarrow> exn + objectid option) \<Rightarrow> string \<Rightarrow> objectid option \<Rightarrow> exn + string" where
  "generateUniqueSlug findOne titleText excludeId =
     fst (generateUniqueSlugTraced findOne titleText excludeId)"

section \<open>Date normalisation (event.model.ts, normalizeDate)\<close>

text \<open>\<^verbatim>\<open>/^\d{4}-\d{2}-\d{2}$/\<close>\<close>

definition isoDateRegex :: "string \<Rightarrow> bool" where
  "isoDateRegex s \<longleftrightarrow>
     (case s of
        [y1, y2, y3, y4, h1, m1, m2, h2, d1, d2] \<Rightarrow>
          list_all isDigit [y1, y2, y3, y4, m1, m2, d1, d2] \<and> h1 = CHR ''-'' \<and> h2 = CHR ''-''
      | _ \<Rightarrow> False)"

text \<open>
  \<^verbatim>\<open>Date.prototype.toISOString\<close>, as ECMAScript defines it, on a time value \<open>t\<close>
  (milliseconds since the epoch, UTC): the proleptic Gregorian date of day
  \<open>t div 86400000\<close>, the year in four digits from 0 to 9999 and signed in six digits
  otherwise.
\<close>

definition civilFromDays :: "int \<Rightarrow> int \<times> int \<times> int" where
  "civilFromDays days =
    (let z = days + 719468;
         era = z div 146097;
         doe = z - era * 146097;
         yoe = (doe - doe div 1460 + doe div 36524 - doe div 146096) div 365;
         doy = doe - (365 * yoe + yoe div 4 - yoe div 100);
         mp = (5 * doy + 2) div 153;
         d = doy - (153 * mp + 2) div 5 + 1;
         m = (if mp < 10 then mp + 3 else mp - 9);
         y = yoe + era * 400 + (if m \<le> 2 then 1 else 0)
     in (y, m, d))"

definition padInt :: "nat \<Rightarrow> int \<Rightarrow> string" where
  "padInt n k = padStart n (CHR ''0'') (natToString (nat k))"

definition Date_toISOString :: "int \<Rightarrow> string" where
  "Date_toISOString t =
    (let ms = t mod 86400000
     in case civilFromDays (t div 86400000) of
          (y, m, d) \<Rightarrow>
            (if 0 \<le> y \<and> y \<le> 9999 then padInt 4 y
             else (if y < 0 then ''-'' else ''+'') @ padInt 6 (abs y)) @
            ''-'' @ padInt 2 m @ ''-'' @ padInt 2 d @ ''T'' @
            padInt 2 (ms div 3600000) @ '':'' @ padInt 2 (ms div 60000 mod 60) @ '':'' @
            padInt 2 (ms div 1000 mod 60) @ ''.'' @ padInt 3 (ms mod 1000) @ ''Z'')"

text \<open>
  \<^verbatim>\<open>normalizeDate\<close>. The parser of the runtime's \<^verbatim>\<open>Date\<close> constructor is the parameter
  \<open>dateParse\<close>: the time value of a string, or nothing where the constructor gives an
  invalid date (\<^verbatim>\<open>isNaN(date.getTime())\<close>). ECMAScript leaves the reading of a string
  outside its own date-time format to the implementation, zone included.
  \<^verbatim>\<open>.split('T')[0]\<close> is the text before the first \<^verbatim>\<open>T\<close>.
\<close>

definition normalizeDate :: "(string \<Rightarrow> int option) \<Rightarrow> string \<Rightarrow> exn + string" where
  "normalizeDate dateParse dateString =
    (if isoDateRegex dateString then
       (case dateParse (dateString @ ''T00:00:00Z'') of
          None \<Rightarrow> Inl (newError ''Invalid date format'')
        | Some t \<Rightarrow> Inr dateString)
     else
       (case dateParse dateString of
          None \<Rightarrow> Inl (newError ''Invalid date format'')
        | Some t \<Rightarrow> Inr (takeWhile (\<lambda>c. c \<noteq> CHR ''T'') (Date_toISOString t))))"

text \<open>
  The reading that the engine of Node (V8) gives to the strings \<^verbatim>\<open>normalizeDate\<close> builds
  in its first branch, \<^verbatim>\<open>YYYY-MM-DDT00:00:00Z\<close>: the month must be 01 to 12 and the day
  01 to 31, and the time value is that of the first of the month plus the days, so
  that a day past the end of the month runs over into the next month. Strings of
  another shape are not read by this model.
\<close>

definition daysFromCivil :: "int \<Rightarrow> int \<Rightarrow> int \<Rightarrow> int" where
  "daysFromCivil y m d =
    (let y1 = (if m \<le> 2 then y - 1 else y);
         era = y1 div 400;
         yoe = y1 - era * 400;
         doy = (153 * (if m > 2 then m - 3 else m + 9) + 2) div 5 + d - 1;
         doe = yoe * 365 + yoe div 4 - yoe div 100 + doy
     in era * 146097 + doe - 719468)"

definition nodeParseUtcMidnight :: "string \<Rightarrow> int option" where
  "nodeParseUtcMidnight s =
    (if isoDateRegex (take 10 s) \<and> drop 10 s = ''T00:00:00Z'' then
       (let y = parseInt (take 4 s); m = parseInt (take 2 (drop 5 s)); d = parseInt (take 2 (drop 8 s))
        in if 1 \<le> m \<and> m \<le> 12 \<and> 1 \<le> d \<and> d \<le> 31
           then Some (daysFromCivil y m d * 86400000) else None)
     else None)"

section \<open>Saving an Event (event.model.ts, the pre-save hook)\<close>

text \<open>
  A document in memory: its fields, whether it is new, and the paths changed since it
  was loaded. Assigning \<^verbatim>\<open>event.slug\<close> runs the setters the schema declares for the path
  (\<^verbatim>\<open>lowercase\<close> and \<^verbatim>\<open>trim\<close>, which commute).
\<close>

record event_doc =
  doc :: event
  isNew :: bool
  modifiedPaths :: "string list"

definition isModified :: "event_doc \<Rightarrow> string \<Rightarrow> bool" where
  "isModified d path \<longleftrightarrow> path \<in> set (modifiedPaths d)"

definition slugSetters :: "string \<Rightarrow> string" where
  "slugSetters s = trim (toLowerCase s)"

text \<open>The hook returns the error it passes to \<^verbatim>\<open>next\<close>, if any, and the document as the
  hook leaves it.\<close>

definition eventPreSave ::
  "(event_query \<Rightarrow> exn + objectid option) \<Rightarrow> (string \<Rightarrow> int option) \<Rightarrow> event_doc \<Rightarrow>
     exn option \<times> event" where
  "eventPreSave findOne dateParse d =
    (let e0 = doc d
     in case (if isModified d ''title'' \<or> isNew d
              then map_sum id (\<lambda>s. e0\<lparr>slug := slugSetters s\<rparr>)
                     (generateUniqueSlug findOne (title e0) (Some (oid e0)))
              else Inr e0) of
          Inl error \<Rightarrow> (Some error, e0)
        | Inr e1 \<Rightarrow>
           (case (if isModified d ''date''
                  then map_sum id (\<lambda>v. e1\<lparr>date := v\<rparr>) (normalizeDate dateParse (date e1))
                  else Inr e1) of
              Inl error \<Rightarrow> (Some error, e1)
            | Inr e2 \<Rightarrow>
               (case (if isModified d ''time''
                      then map_sum id (\<lambda>v. e2\<lparr>time := v\<rparr>) (normalizeTime (time e2))
                      else Inr e2) of
                  Inl error \<Rightarrow> (Some error, e2)
                | Inr e3 \<Rightarrow> (None, e3))))"

text \<open>
  \<^verbatim>\<open>save()\<close> of a document that has passed the schema's field validators, against a
  collection held in memory: the hook runs, then the document is inserted (when new) or
  replaces the stored one with its \<^verbatim>\<open>_id\<close>. The collection keeps \<^verbatim>\<open>_id\<close> and \<^verbatim>\<open>slug\<close>
  unique (the unique index the schema declares) and refuses a write that would not.
\<close>

definition duplicateKey :: "string \<Rightarrow> exn" where
  "duplicateKey index = Error ''MongoServerError'' (''E11000 duplicate key error index: '' @ index)"

definition writeEvent :: "event list \<Rightarrow> bool \<Rightarrow> event \<Rightarrow> exn + event list" where
  "writeEvent events new e =
    (if new then
       (if list_ex (\<lambda>x. oid x = oid e) events then Inl (duplicateKey ''_id_'')
        else if list_ex (\<lambda>x. slug x = slug e) events then Inl (duplicateKey ''slug_1'')
        else Inr (events @ [e]))
     else
       (if \<not> list_ex (\<lambda>x. oid x = oid e) events
        then Inl (Error ''DocumentNotFoundError'' (''No document found for query _id: '' @ oid e))
        else if list_ex (\<lambda>x. slug x = slug e \<and> oid x \<noteq> oid e) events
        then Inl (duplicateKey ''slug_1'')
        else Inr (map (\<lambda>x. if oid x = oid e then e else x) events)))"

definition saveEvent ::
  "(string \<Rightarrow> int option) \<Rightarrow> int \<Rightarrow> event list \<Rightarrow> event_doc \<Rightarrow> (exn + event) \<times> event list" where
  "saveEvent dateParse now events d =
    (case eventPreSave (findOneId events) dateParse d of
       (Some error, e) \<Rightarrow> (Inl error, events)
     | (None, e) \<Rightarrow>
        (let stamped = (if isNew d then e\<lparr>createdAt := now, updatedAt := now\<rparr>
                        else e\<lparr>updatedAt := now\<rparr>)
         in case writeEvent events (isNew d) stamped of
              Inl error \<Rightarrow> (Inl error, events)
            | Inr events' \<Rightarrow> (Inr stamped, events')))"

text \<open>Saving documents one after the other: the results in order, and the collection
  at the end.\<close>

fun saveEvents ::
  "(string \<Rightarrow> int option) \<Rightarrow> int \<Rightarrow> event list \<Rightarrow> event_doc list \<Rightarrow>
     (exn + event) list \<times> event list" where
  "saveEvents dateParse now events [] = ([], events)"
| "saveEvents dateParse now events (d # ds) =
     (case saveEvent dateParse now events d of
        (r, events') \<Rightarrow>
          (case saveEvents dateParse now events' ds of (rs, events'') \<Rightarrow> (r # rs, events'')))"

section \<open>Bookings (booking.model.ts)\<close>

record booking = document +
  eventId :: objectid
  email :: string

text \<open>The validator of the \<^verbatim>\<open>email\<close> path: one or more characters of the local class, an
  \<^verbatim>\<open>@\<close>, and domain labels separated by dots; a label is 1 to 63 letters, digits or
  hyphens that neither starts nor ends with a hyphen.\<close>

definition isAlnum :: "char \<Rightarrow> bool" where
  "isAlnum c \<longleftrightarrow> isLower c \<or> c \<in> set ''ABCDEFGHIJKLMNOPQRSTUVWXYZ'' \<or> isDigit c"

definition emailLocalChar :: "char \<Rightarrow> bool" where
  "emailLocalChar c \<longleftrightarrow>
     isAlnum c \<or> c \<in> set ''.!#$%&*+/=?^_{|}~-'' \<or> c = CHR 0x27 \<or> c = CHR 0x60"

definition emailLabel :: "string \<Rightarrow> bool" where
  "emailLabel l \<longleftrightarrow>
     l \<noteq> [] \<and> length l \<le> 63 \<and> isAlnum (hd l) \<and> isAlnum (last l) \<and>
     list_all (\<lambda>c. isAlnum c \<or> c = CHR ''-'') l"

fun splitOn :: "char \<Rightarrow> string \<Rightarrow> string list" where
  "splitOn sep [] = [[]]"
| "splitOn sep (c # cs) =
     (if c = sep then [] # splitOn sep cs
      else (case splitOn sep cs of l # ls \<Rightarrow> (c # l) # ls | [] \<Rightarrow> [[c]]))"

definition emailRegex :: "string \<Rightarrow> bool" where
  "emailRegex s \<longleftrightarrow>
     (let localPart = takeWhile (\<lambda>c. c \<noteq> CHR ''@'') s;
          rest = dropWhile (\<lambda>c. c \<noteq> CHR ''@'') s
      in localPart \<noteq> [] \<and> list_all emailLocalChar localPart \<and> rest \<noteq> [] \<and>
         list_all emailLabel (splitOn (CHR ''.'') (tl rest)))"

definition validationError :: "string \<Rightarrow> exn" where
  "validationError msg = Error ''ValidationError'' msg"

definition validateBooking :: "booking \<Rightarrow> exn option" where
  "validateBooking b =
    (if email b = [] then Some (validationError ''Booking validation failed: email: Email is required'')
     else if \<not> emailRegex (email b)
     then Some (validationError ''Booking validation failed: email: Please provide a valid email address'')
     else None)"

text \<open>\<^verbatim>\<open>Model.findById(id)\<close> on the documents of a collection (of the model named
  \<open>modelName\<close>): the cast of the identifier, which can fail, then the document with that
  \<^verbatim>\<open>_id\<close>, if there is one.\<close>

definition findById ::
  "string \<Rightarrow> ('a document_scheme) list \<Rightarrow> id_arg \<Rightarrow> exn + ('a document_scheme) option" where
  "findById modelName docs a =
     (case castObjectId modelName a of
        Inl error \<Rightarrow> Inl error
      | Inr i \<Rightarrow> Inr (find (\<lambda>x. oid x = i) docs))"

text \<open>The pre-save hook of the Booking schema: the referenced event, an ObjectId of the
  document, is looked up outside any session; the hook's \<^verbatim>\<open>catch\<close> turns a failing lookup
  into a validation error of its own.\<close>

definition bookingPreSave :: "event list \<Rightarrow> bool \<Rightarrow> bool \<Rightarrow> booking \<Rightarrow> exn option" where
  "bookingPreSave events eventIdModified new b =
    (if eventIdModified \<or> new then
       (case findById ''Event'' events (IdObject (eventId b)) of
          Inl error \<Rightarrow> Some (validationError ''Invalid event ID format or database error'')
        | Inr None \<Rightarrow> Some (validationError (''Event with ID '' @ eventId b @ '' does not exist''))
        | Inr (Some e) \<Rightarrow> None)
     else None)"

section \<open>The database and its transactions\<close>

text \<open>
  The database is the two collections. A session records the calls made on it; its
  transaction works on a copy of the bookings, which \<^verbatim>\<open>commitTransaction\<close> writes back
  and \<^verbatim>\<open>abortTransaction\<close> drops. The operations on a collection held in memory fail
  only where stated (the cast of an identifier, validation, the hooks, the unique
  indexes).
\<close>

record database =
  events :: "event list"
  bookings :: "booking list"

datatype session_call =
  StartSession | StartTransaction | CommitTransaction | AbortTransaction | EndSession

record session =
  txBookings :: "booking list"
  calls :: "session_call list"

definition startSession :: "database \<Rightarrow> session" where
  "startSession db = \<lparr>txBookings = bookings db, calls = [StartSession]\<rparr>"

definition startTransaction :: "database \<Rightarrow> session \<Rightarrow> session" where
  "startTransaction db s = s\<lparr>txBookings := bookings db, calls := calls s @ [StartTransaction]\<rparr>"

definition commitTransaction :: "database \<Rightarrow> session \<Rightarrow> database \<times> session" where
  "commitTransaction db s =
     (db\<lparr>bookings := txBookings s\<rparr>, s\<lparr>calls := calls s @ [CommitTransaction]\<rparr>)"

definition abortTransaction :: "database \<Rightarrow> session \<Rightarrow> session" where
  "abortTransaction db s = s\<lparr>txBookings := bookings db, calls := calls s @ [AbortTransaction]\<rparr>"

definition endSession :: "session \<Rightarrow> session" where
  "endSession s = s\<lparr>calls := calls s @ [EndSession]\<rparr>"

text \<open>\<^verbatim>\<open>Booking.create([bookingData], { session })\<close>: the setters of the \<^verbatim>\<open>email\<close> path, the
  validators, the pre-save hook, then the insert into the transaction's copy under the
  unique indexes \<^verbatim>\<open>_id_\<close> and \<^verbatim>\<open>uniq_event_email\<close>. \<open>newId\<close> is the fresh \<^verbatim>\<open>_id\<close> the driver
  gives the document.\<close>

definition emailSetters :: "string \<Rightarrow> string" where
  "emailSetters s = toLowerCase (trim s)"

definition Booking_create ::
  "database \<Rightarrow> session \<Rightarrow> objectid \<Rightarrow> int \<Rightarrow> objectid \<Rightarrow> string \<Rightarrow> (exn + booking) \<times> session" where
  "Booking_create db s newId now evId mail =
    (let b = \<lparr>oid = newId, createdAt = now, updatedAt = now,
               eventId = evId, email = emailSetters mail\<rparr>
     in case validateBooking b of
          Some error \<Rightarrow> (Inl error, s)
        | None \<Rightarrow>
           (case bookingPreSave (events db) True True b of
              Some error \<Rightarrow> (Inl error, s)
            | None \<Rightarrow>
               if list_ex (\<lambda>x. oid x = newId) (txBookings s) then (Inl (duplicateKey ''_id_''), s)
               else if list_ex (\<lambda>x. eventId x = evId \<and> email x = email b) (txBookings s)
               then (Inl (duplicateKey ''uniq_event_email''), s)
               else (Inr b, s\<lparr>txBookings := txBookings s @ [b]\<rparr>)))"

text \<open>\<^verbatim>\<open>booking.save({ session })\<close> of a loaded booking whose email was assigned.\<close>

definition Booking_save ::
  "database \<Rightarrow> session \<Rightarrow> int \<Rightarrow> booking \<Rightarrow> (exn + booking) \<times> session" where
  "Booking_save db s now b =
    (case validateBooking b of
       Some error \<Rightarrow> (Inl error, s)
     | None \<Rightarrow>
        (case bookingPreSave (events db) False False b of
           Some error \<Rightarrow> (Inl error, s)
         | None \<Rightarrow>
            if list_ex (\<lambda>x. eventId x = eventId b \<and> email x = email b \<and> oid x \<noteq> oid b) (txBookings s)
            then (Inl (duplicateKey ''uniq_event_email''), s)
            else (let b' = b\<lparr>updatedAt := now\<rparr>
                  in (Inr b', s\<lparr>txBookings := map (\<lambda>x. if oid x = oid b then b' else x) (txBookings s)\<rparr>))))"

text \<open>\<^verbatim>\<open>Booking.findByIdAndDelete(bookingId).session(session)\<close>: the cast of the
  identifier, which can fail, then the document with that \<^verbatim>\<open>_id\<close>, if any, which is
  removed (\<^verbatim>\<open>_id\<close> is unique in a collection).\<close>

definition Booking_findByIdAndDelete ::
  "session \<Rightarrow> id_arg \<Rightarrow> (exn + booking option) \<times> session" where
  "Booking_findByIdAndDelete s a =
     (case castObjectId ''Booking'' a of
        Inl error \<Rightarrow> (Inl error, s)
      | Inr i \<Rightarrow>
          (Inr (find (\<lambda>x. oid x = i) (txBookings s)),
           s\<lparr>txBookings := filter (\<lambda>x. oid x \<noteq> i) (txBookings s)\<rparr>))"

section \<open>Transactional booking operations (booking.utils.ts)\<close>

text \<open>The \<^verbatim>\<open>catch\<close> blocks rethrow an \<^verbatim>\<open>Error\<close> as it is and replace any other thrown
  value by an \<^verbatim>\<open>Error\<close> with a fixed message.\<close>

definition rethrow :: "string \<Rightarrow> exn \<Rightarrow> exn" where
  "rethrow unknownMessage error =
     (case error of Error n msg \<Rightarrow> error | NonError \<Rightarrow> newError unknownMessage)"

text \<open>Each operation returns its result (or the error it throws), the database after
  the call and the session as it was left.\<close>

definition createBookingWithTransaction ::
  "database \<Rightarrow> objectid \<Rightarrow> int \<Rightarrow> id_arg \<Rightarrow> string \<Rightarrow> (exn + booking) \<times> database \<times> session" where
  "createBookingWithTransaction db newId now evId mail =
    (let s0 = startTransaction db (startSession db);
         body =
           (case findById ''Event'' (events db) evId of
              Inl error \<Rightarrow> (Inl error, db, s0)
            | Inr None \<Rightarrow>
                (Inl (newError (''Event with ID '' @ idText evId @ '' does not exist'')), db, s0)
            | Inr (Some eventExists) \<Rightarrow>
               (case (case evId of IdString s \<Rightarrow> newObjectId s | IdObject i \<Rightarrow> Some i) of
                  None \<Rightarrow> (Inl bsonError, db, s0)
                | Some i \<Rightarrow>
                   (case Booking_create db s0 newId now i (toLowerCase (trim mail)) of
                      (Inl error, s1) \<Rightarrow> (Inl error, db, s1)
                    | (Inr b, s1) \<Rightarrow>
                        (case commitTransaction db s1 of (db', s2) \<Rightarrow> (Inr b, db', s2)))))
     in case body of
          (Inr b, db', s) \<Rightarrow> (Inr b, db', endSession s)
        | (Inl error, db', s) \<Rightarrow>
            (Inl (rethrow ''Failed to create booking: Unknown error'' error), db',
             endSession (abortTransaction db' s)))"

definition updateBookingWithTransaction ::
  "database \<Rightarrow> int \<Rightarrow> id_arg \<Rightarrow> string \<Rightarrow> (exn + booking) \<times> database \<times> session" where
  "updateBookingWithTransaction db now bookingId newEmail =
    (let s0 = startTransaction db (startSession db);
         body =
           (case findById ''Booking'' (txBookings s0) bookingId of
              Inl error \<Rightarrow> (Inl error, db, s0)
            | Inr None \<Rightarrow>
                (Inl (newError (''Booking with ID '' @ idText bookingId @ '' does not exist'')), db, s0)
            | Inr (Some b) \<Rightarrow>
               (case Booking_save db s0 now (b\<lparr>email := emailSetters (toLowerCase (trim newEmail))\<rparr>) of
                  (Inl error, s1) \<Rightarrow> (Inl error, db, s1)
                | (Inr b', s1) \<Rightarrow>
                    (case commitTransaction db s1 of (db', s2) \<Rightarrow> (Inr b', db', s2))))
     in case body of
          (Inr b, db', s) \<Rightarrow> (Inr b, db', endSession s)
        | (Inl error, db', s) \<Rightarrow>
            (Inl (rethrow ''Failed to update booking: Unknown error'' error), db',
             endSession (abortTransaction db' s)))"

definition deleteBookingWithTransaction ::
  "database \<Rightarrow> id_arg \<Rightarrow> (exn + bool) \<times> database \<times> session" where
  "deleteBookingWithTransaction db bookingId =
    (let s0 = startTransaction db (startSession db);
         body =
           (case Booking_findByIdAndDelete s0 bookingId of
              (Inl error, s1) \<Rightarrow> (Inl error, db, s1)
            | (Inr result, s1) \<Rightarrow>
                (case commitTransaction db s1 of
                   (db', s2) \<Rightarrow> (Inr (result \<noteq> None), db', s2)))
     in case body of
          (Inr r, db', s) \<Rightarrow> (Inr r, db', endSession s)
        | (Inl error, db', s) \<Rightarrow>
            (Inl (rethrow ''Failed to delete booking: Unknown error'' error), db',
             endSession (abortTransaction db' s)))"

text \<open>The same deletion called \<open>n\<close> times in a row: the results in order, and the
  database at the end.\<close>

fun deleteRepeatedly :: "nat \<Rightarrow> database \<Rightarrow> id_arg \<Rightarrow> (exn + bool) list \<times> database" where
  "deleteRepeatedly 0 db bookingId = ([], db)"
| "deleteRepeatedly (Suc n) db bookingId =
     (case deleteBookingWithTransaction db bookingId of
        (r, db', s) \<Rightarrow>
          (case deleteRepeatedly n db' bookingId of (rs, db'') \<Rightarrow> (r # rs, db'')))"

section \<open>The connection manager (connectDB)\<close>

text \<open>
  The cache holds the resolved connection and the promise of the attempt in flight. A
  promise is modelled by the outcome it settles with; calls are taken one after the
  other, each awaiting its promise before the next call starts. \<open>outcome\<close> is what
  \<^verbatim>\<open>mongoose.connect\<close> would settle with if it were called now. The third component of
  the result tells whether the call started a connection attempt.
\<close>

record 'h mongooseCache =
  conn :: "'h option"
  promise :: "(exn + 'h) option"

definition connectDB ::
  "(exn + 'h) \<Rightarrow> 'h mongooseCache \<Rightarrow> (exn + 'h) \<times> 'h mongooseCache \<times> bool" where
  "connectDB outcome cached =
    (case conn cached of
       Some c \<Rightarrow> (Inr c, cached, False)
     | None \<Rightarrow>
        (let started = (promise cached = None);
             p = (case promise cached of None \<Rightarrow> outcome | Some q \<Rightarrow> q);
             cached1 = cached\<lparr>promise := Some p\<rparr>
         in case p of
              Inr c \<Rightarrow> (Inr c, cached1\<lparr>conn := Some c\<rparr>, started)
            | Inl error \<Rightarrow> (Inl error, cached1\<lparr>promise := None\<rparr>, started)))"

text \<open>Calls one after the other, each with the outcome a connection attempt would have
  at that moment.\<close>

fun connectCalls ::
  "(exn + 'h) list \<Rightarrow> 'h mongooseCache \<Rightarrow> ((exn + 'h) \<times> bool) list \<times> 'h mongooseCache" where
  "connectCalls [] cached = ([], cached)"
| "connectCalls (outcome # rest) cached =
     (case connectDB outcome cached of
        (r, cached', started) \<Rightarrow>
          (case connectCalls rest cached' of (rs, cached'') \<Rightarrow> ((r, started) # rs, cached'')))"

section \<open>Example documents\<close>

text \<open>An event with the given \<^verbatim>\<open>_id\<close>, title and slug, and fixed other fields; a new
  document in memory with such fields and no slug yet; and a parser that reads one
  string, midnight of 5 January 2024 in UTC.\<close>

definition exampleEvent :: "objectid \<Rightarrow> string \<Rightarrow> string \<Rightarrow> event" where
  "exampleEvent i t s =
     \<lparr>oid = i, createdAt = 0, updatedAt = 0, title = t, slug = s,
      description = ''A meetup'', overview = ''Talks'', image' = ''https://example.org/a.png'',
      venue = ''Hall 1'', location = ''Berlin'', date = ''2024-01-05'', time = ''18:30'',
      mode = ''offline'', audience = ''Developers'', agenda = [''Talks''],
      organizer = ''The organizers'', tags = [''dev'']\<rparr>"

definition exampleNewDoc :: "objectid \<Rightarrow> string \<Rightarrow> event_doc" where
  "exampleNewDoc i t =
     \<lparr>doc = exampleEvent i t [], isNew = True, modifiedPaths = [''title'', ''date'', ''time'']\<rparr>"

definition exampleDateParse :: "string \<Rightarrow> int option" where
  "exampleDateParse s = (if s = ''2024-01-05T00:00:00Z'' then Some 1704412800000 else None)"

text \<open>A booking of the given event, and a database of one event and two bookings, whose
  identifiers are texts of ObjectIds.\<close>

definition exampleBooking :: "objectid \<Rightarrow> objectid \<Rightarrow> string \<Rightarrow> booking" where
  "exampleBooking i ev mail = \<lparr>oid = i, createdAt = 0, updatedAt = 0, eventId = ev, email = mail\<rparr>"

definition exampleDatabase :: database where
  "exampleDatabase =
     \<lparr>events = [exampleEvent ''65a1b2c3d4e5f60718293a01'' ''Meetup'' ''meetup''],
      bookings =
        [exampleBooking ''65a1b2c3d4e5f60718293b01'' ''65a1b2c3d4e5f60718293a01'' ''ann@example.org'',
         exampleBooking ''65a1b2c3d4e5f60718293b02'' ''65a1b2c3d4e5f60718293a01'' ''bob@example.org'']\<rparr>"

text \<open>A parser that reads \<^verbatim>\<open>2024-1-5\<close> as midnight of 5 January 2024 in a zone two hours
  east of UTC, the instant 2024-01-04T22:00:00Z.\<close>

definition exampleLocalParse :: "string \<Rightarrow> int option" where
  "exampleLocalParse s = (if s = ''2024-1-5'' then Some 1704405600000 else None)"

text \<open>A lookup that finds a document whatever the query.\<close>

definition exampleAlwaysFound :: "event_query \<Rightarrow> exn + objectid option" where
  "exampleAlwaysFound q = Inr (Some ''e0'')"

text \<open>New documents with one title and the identifiers \<^verbatim>\<open>0\<close>, \<^verbatim>\<open>1\<close>, ... in decimal.\<close>

fun exampleNewDocs :: "string \<Rightarrow> nat \<Rightarrow> event_doc list" where
  "exampleNewDocs t 0 = []"
| "exampleNewDocs t (Suc n) = exampleNewDocs t n @ [exampleNewDoc (natToString n) t]"

section \<open>Notions of the specification\<close>

text \<open>
  The definitions of this section follow the words of the specification, not the
  code; the theorems below compare the code with them.
\<close>

text \<open>The accepted time texts: \<^verbatim>\<open>H:MM\<close> or \<^verbatim>\<open>HH:MM\<close>, or the same followed by white space
  (possibly none) and \<^verbatim>\<open>AM\<close> or \<^verbatim>\<open>PM\<close> in either case of each letter.\<close>

definition spec_meridiems :: "string list" where
  "spec_meridiems = [''AM'', ''Am'', ''aM'', ''am'', ''PM'', ''Pm'', ''pM'', ''pm'']"

definition spec_timeParts :: "string \<Rightarrow> string \<Rightarrow> (string \<times> string) option \<Rightarrow> bool" where
  "spec_timeParts h m suffix \<longleftrightarrow>
     (length h = 1 \<or> length h = 2) \<and> list_all isDigit h \<and> length m = 2 \<and> list_all isDigit m \<and>
     (case suffix of None \<Rightarrow> True
      | Some (ws, p) \<Rightarrow> list_all isSpace ws \<and> p \<in> set spec_meridiems)"

definition spec_timeText :: "string \<Rightarrow> string \<Rightarrow> (string \<times> string) option \<Rightarrow> string" where
  "spec_timeText h m suffix =
     h @ '':'' @ m @ (case suffix of None \<Rightarrow> [] | Some (ws, p) \<Rightarrow> ws @ p)"

text \<open>The hour on the 24-hour clock: PM adds twelve hours except at 12, and 12 AM is 0.\<close>

definition spec_hour24 :: "int \<Rightarrow> (string \<times> string) option \<Rightarrow> int" where
  "spec_hour24 h suffix =
     (case suffix of None \<Rightarrow> h
      | Some (ws, p) \<Rightarrow>
          if p \<in> set [''PM'', ''Pm'', ''pM'', ''pm'']
          then (if h = 12 then 12 else h + 12)
          else (if h = 12 then 0 else h))"

definition spec_pad2 :: "nat \<Rightarrow> string" where
  "spec_pad2 n = [digitChar (n div 10), digitChar (n mod 10)]"

text \<open>A canonical time: \<^verbatim>\<open>HH:MM\<close> with the hour from 00 to 23 and the minute from 00 to 59.\<close>

definition spec_canonicalTime :: "string \<Rightarrow> bool" where
  "spec_canonicalTime r \<longleftrightarrow>
     (case r of
        [a, b, c, d, e] \<Rightarrow>
          isDigit a \<and> isDigit b \<and> c = CHR '':'' \<and> isDigit d \<and> isDigit e \<and>
          10 * digitVal a + digitVal b \<le> 23 \<and> 10 * digitVal d + digitVal e \<le> 59
      | _ \<Rightarrow> False)"

text \<open>The candidate slugs, in the order the specification gives them: the base slug,
  then the base slug with \<^verbatim>\<open>-1\<close>, \<^verbatim>\<open>-2\<close>, and so on.\<close>

definition spec_candidate :: "string \<Rightarrow> nat \<Rightarrow> string" where
  "spec_candidate base k = (if k = 0 then base else base @ ''-'' @ natToString k)"

text \<open>A slug is taken when an event holds it, the excluded document apart.\<close>

definition spec_slugTaken :: "event list \<Rightarrow> objectid option \<Rightarrow> string \<Rightarrow> bool" where
  "spec_slugTaken evs excludeId s \<longleftrightarrow>
     list_ex (\<lambda>e. slug e = s \<and> (case excludeId of None \<Rightarrow> True | Some i \<Rightarrow> oid e \<noteq> i)) evs"

text \<open>The characters a slug is made of.\<close>

definition spec_slugText :: "string \<Rightarrow> bool" where
  "spec_slugText s \<longleftrightarrow> list_all (\<lambda>c. isLower c \<or> isDigit c \<or> c = CHR ''-'') s"

text \<open>Creations whose titles have the canonical form \<open>base\<close>: new documents with fresh,
  distinct identifiers whose date and time the hook accepts, saved into a collection in
  which no event holds one of the first hundred candidates of \<open>base\<close>.\<close>

definition spec_creations ::
  "(string \<Rightarrow> int option) \<Rightarrow> event list \<Rightarrow> string \<Rightarrow> event_doc list \<Rightarrow> bool" where
  "spec_creations dateParse evs base ds \<longleftrightarrow>
     (\<forall>d\<in>set ds. isNew d \<and> generateSlug (title (doc d)) = base \<and>
        (isModified d ''date'' \<longrightarrow> \<not> isl (normalizeDate dateParse (date (doc d)))) \<and>
        (isModified d ''time'' \<longrightarrow> \<not> isl (normalizeTime (time (doc d)))) \<and>
        (\<forall>e\<in>set evs. oid e \<noteq> oid (doc d))) \<and>
     distinct (map (\<lambda>d. oid (doc d)) ds) \<and>
     (\<forall>e\<in>set evs. \<forall>k<100. slug e \<noteq> spec_candidate base k)"

section \<open>Time normalisation: the match and the conversion\<close>

lemma upperChar_A: "upperChar c = CHR ''A'' \<longleftrightarrow> c = CHR ''a'' \<or> c = CHR ''A''"
  by (auto simp: upperChar_def split: if_splits)
lemma upperChar_M: "upperChar c = CHR ''M'' \<longleftrightarrow> c = CHR ''m'' \<or> c = CHR ''M''"
  by (auto simp: upperChar_def split: if_splits)
lemma upperChar_P: "upperChar c = CHR ''P'' \<longleftrightarrow> c = CHR ''p'' \<or> c = CHR ''P''"
  by (auto simp: upperChar_def split: if_splits)

lemma toUpperCase_AM: "toUpperCase p = ''AM'' \<longleftrightarrow> p \<in> set [''AM'', ''Am'', ''aM'', ''am'']"
  by (auto simp: toUpperCase_def upperChar_A upperChar_M map_eq_Cons_conv)

lemma toUpperCase_PM: "toUpperCase p = ''PM'' \<longleftrightarrow> p \<in> set [''PM'', ''Pm'', ''pM'', ''pm'']"
  by (auto simp: toUpperCase_def upperChar_P upperChar_M map_eq_Cons_conv)

lemma toUpperCase_meridiem:
  "(toUpperCase p = ''AM'' \<or> toUpperCase p = ''PM'') \<longleftrightarrow> p \<in> set spec_meridiems"
  unfolding toUpperCase_AM toUpperCase_PM spec_meridiems_def by auto

lemma isDigit_not_colon: "isDigit c \<Longrightarrow> c \<noteq> CHR '':''"
  by (auto simp: isDigit_def)

lemma dropWhile_all: "list_all P ws \<Longrightarrow> dropWhile P (ws @ p) = dropWhile P p"
  by (induction ws) auto

lemma meridiem_head: "p \<in> set spec_meridiems \<Longrightarrow> dropWhile isSpace p = p \<and> p \<noteq> []"
  by (auto simp: spec_meridiems_def isSpace_def)

lemma timeRegex_complete:
  assumes "spec_timeParts h m suffix"
  shows "timeRegex (spec_timeText h m suffix) = Some (h, m, map_option snd suffix)"
proof -
  from assms have h: "list_all isDigit h" "length h = 1 \<or> length h = 2"
    and m: "length m = 2" "list_all isDigit m"
    by (auto simp: spec_timeParts_def)
  let ?rest = "m @ (case suffix of None \<Rightarrow> [] | Some (ws, p) \<Rightarrow> ws @ p)"
  have nc: "\<forall>c \<in> set h. c \<noteq> CHR '':''"
    using h(1) by (auto simp: list_all_iff isDigit_not_colon)
  have tw: "takeWhile (\<lambda>c. c \<noteq> CHR '':'') (h @ CHR '':'' # ?rest) = h"
    using nc by (simp add: takeWhile_append2)
  have dw: "dropWhile (\<lambda>c. c \<noteq> CHR '':'') (h @ CHR '':'' # ?rest) = CHR '':'' # ?rest"
    using nc by (simp add: dropWhile_append2)
  have stxt: "spec_timeText h m suffix = h @ CHR '':'' # ?rest"
    by (simp add: spec_timeText_def)
  show ?thesis
  proof (cases suffix)
    case None
    then show ?thesis
      unfolding stxt timeRegex_def tw dw using h m by (simp add: Let_def)
  next
    case (Some wp)
    obtain ws p where wp: "wp = (ws, p)" by (cases wp)
    from assms Some wp have ws: "list_all isSpace ws" and p: "p \<in> set spec_meridiems"
      by (auto simp: spec_timeParts_def)
    have d: "dropWhile isSpace (ws @ p) = p"
      using ws p by (simp add: dropWhile_all meridiem_head)
    have ne: "ws @ p \<noteq> []" using p meridiem_head by auto
    show ?thesis
      unfolding stxt timeRegex_def tw dw using h m Some wp d ne p
      by (simp add: Let_def toUpperCase_meridiem)
  qed
qed

lemma timeRegex_sound:
  assumes "timeRegex s = Some (h, m, g4)"
  shows "\<exists>suffix. spec_timeParts h m suffix \<and> s = spec_timeText h m suffix \<and> g4 = map_option snd suffix"
proof -
  let ?r1 = "dropWhile (\<lambda>c. c \<noteq> CHR '':'') s"
  let ?r2 = "drop 2 (tl ?r1)"
  from assms have r1: "?r1 \<noteq> []" and h: "h = takeWhile (\<lambda>c. c \<noteq> CHR '':'') s"
    and hd: "(length h = 1 \<or> length h = 2) \<and> list_all isDigit h"
    and m: "m = take 2 (tl ?r1)" and md: "length m = 2 \<and> list_all isDigit m"
    by (auto simp: timeRegex_def Let_def split: if_splits)
  have "hd ?r1 = CHR '':''" using r1 hd_dropWhile[of "\<lambda>c. c \<noteq> CHR '':''" s] by auto
  with r1 have r1_eq: "?r1 = CHR '':'' # tl ?r1" by (cases ?r1) auto
  have s_eq: "s = h @ CHR '':'' # m @ ?r2"
  proof -
    have "s = takeWhile (\<lambda>c. c \<noteq> CHR '':'') s @ ?r1" by simp
    also have "\<dots> = h @ CHR '':'' # tl ?r1" using h r1_eq by simp
    also have "tl ?r1 = m @ ?r2" using m by simp
    finally show ?thesis .
  qed
  show ?thesis
  proof (cases "?r2 = []")
    case True
    with assms have "g4 = None" by (auto simp: timeRegex_def Let_def split: if_splits)
    with hd md s_eq True show ?thesis
      by (intro exI[of _ None]) (simp add: spec_timeParts_def spec_timeText_def)
  next
    case False
    let ?p = "dropWhile isSpace ?r2"
    from assms False have g4: "g4 = Some ?p" and up: "toUpperCase ?p = ''AM'' \<or> toUpperCase ?p = ''PM''"
      by (auto simp: timeRegex_def Let_def split: if_splits)
    have p: "?p \<in> set spec_meridiems" using up toUpperCase_meridiem by blast
    have ws: "list_all isSpace (takeWhile isSpace ?r2)"
      by (simp add: list_all_iff) (meson set_takeWhileD)
    have "?r2 = takeWhile isSpace ?r2 @ ?p" by simp
    with s_eq have "s = h @ CHR '':'' # m @ takeWhile isSpace ?r2 @ ?p" by simp
    with hd md g4 p ws show ?thesis
      by (intro exI[of _ "Some (takeWhile isSpace ?r2, ?p)"])
         (simp add: spec_timeParts_def spec_timeText_def)
  qed
qed

lemma padStart_natToString: "n < 100 \<Longrightarrow> padStart 2 (CHR ''0'') (natToString n) = spec_pad2 n"
proof (cases "n < 10")
  case True
  then show ?thesis by (simp add: padStart_def natToString.simps spec_pad2_def digitChar_def)
next
  case False
  assume "n < 100"
  with False have "n div 10 < 10" by simp
  with False show ?thesis
    by (simp add: padStart_def natToString.simps[of n] natToString.simps[of "n div 10"] spec_pad2_def)
qed

lemma digitVal_range: "0 \<le> digitVal c \<and> digitVal c \<le> 9"
  by (auto simp: digitVal_def)

lemma parseInt_1: "parseInt [a] = digitVal a"
  by (simp add: parseInt_def)

lemma parseInt_2: "parseInt [a, b] = 10 * digitVal a + digitVal b"
  by (simp add: parseInt_def)

lemma parseInt_short: "length h = 1 \<or> length h = 2 \<Longrightarrow> 0 \<le> parseInt h \<and> parseInt h \<le> 99"
proof -
  assume "length h = 1 \<or> length h = 2"
  then consider a where "h = [a]" | a b where "h = [a, b]"
    by (cases h; cases "tl h"; cases "tl (tl h)") auto
  then show ?thesis
  proof cases
    case 1
    then show ?thesis using digitVal_range[of a] by (simp add: parseInt_1)
  next
    case 2
    then show ?thesis using digitVal_range[of a] digitVal_range[of b] by (simp add: parseInt_2)
  qed
qed

lemma normalizeTime_parts:
  assumes parts: "spec_timeParts h m suffix" and tr: "trim s = spec_timeText h m suffix"
  shows "normalizeTime s =
    (if spec_hour24 (parseInt h) suffix \<le> 23 \<and> parseInt m \<le> 59
     then Inr (spec_pad2 (nat (spec_hour24 (parseInt h) suffix)) @ '':'' @ m)
     else Inl (newError ''Invalid time values''))"
proof -
  have rx: "timeRegex (trim s) = Some (h, m, map_option snd suffix)"
    using timeRegex_complete[OF parts] tr by simp
  from parts have lh: "length h = 1 \<or> length h = 2" and lm: "length m = 2"
    by (auto simp: spec_timeParts_def)
  have h0: "0 \<le> parseInt h" "parseInt h \<le> 99" using parseInt_short[OF lh] by auto
  have m0: "0 \<le> parseInt m" using parseInt_short[of m] lm by auto
  define H where "H = spec_hour24 (parseInt h) suffix"
  have code_hours:
    "(let hours0 = parseInt h;
          period = map_option toUpperCase (map_option snd suffix);
          hours1 = (if period = Some ''PM'' \<and> hours0 \<noteq> 12 then hours0 + 12 else hours0)
      in (if period = Some ''AM'' \<and> hours1 = 12 then 0 else hours1)) = H"
  proof (cases suffix)
    case None
    then show ?thesis by (simp add: H_def spec_hour24_def)
  next
    case (Some wp)
    obtain ws p where wp: "wp = (ws, p)" by (cases wp)
    from parts Some wp have p: "p \<in> set spec_meridiems" by (auto simp: spec_timeParts_def)
    show ?thesis
    proof (cases "toUpperCase p = ''PM''")
      case True
      then have "p \<in> set [''PM'', ''Pm'', ''pM'', ''pm'']" using toUpperCase_PM[of p] by blast
      with True Some wp show ?thesis by (simp add: H_def spec_hour24_def Let_def)
    next
      case False
      then have notpm: "p \<notin> set [''PM'', ''Pm'', ''pM'', ''pm'']" using toUpperCase_PM[of p] by blast
      with p have "toUpperCase p = ''AM''"
        using toUpperCase_meridiem[of p] False by blast
      with False notpm Some wp show ?thesis by (simp add: H_def spec_hour24_def Let_def)
    qed
  qed
  have Hge: "0 \<le> H" using h0 by (auto simp: H_def spec_hour24_def split: option.splits)
  have Hlt: "H \<le> 23 \<Longrightarrow> nat H < 100" by simp
  show ?thesis
    using code_hours Hge m0 padStart_natToString[of "nat H"]
    unfolding normalizeTime_def rx H_def[symmetric]
    by (auto simp: Let_def)
qed

lemma normalizeTime_no_match:
  assumes "\<not> (\<exists>h m suffix. spec_timeParts h m suffix \<and> trim s = spec_timeText h m suffix)"
  shows "normalizeTime s = Inl (newError ''Invalid time format. Use HH:MM or HH:MM AM/PM'')"
proof (cases "timeRegex (trim s)")
  case None
  then show ?thesis by (simp add: normalizeTime_def)
next
  case (Some t)
  obtain h m g4 where "t = (h, m, g4)" by (cases t)
  with Some timeRegex_sound[of "trim s" h m g4] assms show ?thesis by blast
qed

lemma isDigit_digitChar: "n < 10 \<Longrightarrow> isDigit (digitChar n) \<and> digitVal (digitChar n) = int n"
proof -
  assume "n < 10"
  then have "n \<in> {0,1,2,3,4,5,6,7,8,9}" by auto
  then show ?thesis by (auto simp: isDigit_def digitChar_def digitVal_def)
qed

lemma spec_pad2_canonical:
  assumes "n \<le> 23" "length m = 2" "list_all isDigit m" "parseInt m \<le> 59"
  shows "spec_canonicalTime (spec_pad2 n @ '':'' @ m)"
proof -
  obtain c d where m: "m = [c, d]" using assms(2)
    by (cases m; cases "tl m"; cases "tl (tl m)") auto
  have a: "n div 10 < 10" "n mod 10 < 10" using assms(1) by auto
  have "10 * int (n div 10) + int (n mod 10) = int n" by presburger 
  with assms m isDigit_digitChar[OF a(1)] isDigit_digitChar[OF a(2)]
  show ?thesis
    by (simp add: spec_canonicalTime_def spec_pad2_def parseInt_2)
qed

lemma normalizeTime_canonical:
  assumes "normalizeTime s = Inr r"
  shows "spec_canonicalTime r"
proof (cases "timeRegex (trim s)")
  case None
  with assms show ?thesis by (simp add: normalizeTime_def)
next
  case (Some t)
  obtain h m g4 where t: "t = (h, m, g4)" by (cases t)
  with Some timeRegex_sound[of "trim s" h m g4]
  obtain suffix where parts: "spec_timeParts h m suffix" and tr: "trim s = spec_timeText h m suffix"
    by blast
  from parts have lh: "length h = 1 \<or> length h = 2" and lm: "length m = 2" "list_all isDigit m"
    by (auto simp: spec_timeParts_def)
  have Hge: "0 \<le> spec_hour24 (parseInt h) suffix"
    using parseInt_short[OF lh] by (auto simp: spec_hour24_def split: option.splits)
  from assms normalizeTime_parts[OF parts tr]
  have ok: "spec_hour24 (parseInt h) suffix \<le> 23" "parseInt m \<le> 59"
    and r: "r = spec_pad2 (nat (spec_hour24 (parseInt h) suffix)) @ '':'' @ m"
    by (auto split: if_splits)
  from ok(1) Hge have "nat (spec_hour24 (parseInt h) suffix) \<le> 23" by simp
  from spec_pad2_canonical[OF this lm ok(2)] r show ?thesis by simp
qed


lemma isDigit_digitChar_digitVal: "isDigit a \<Longrightarrow> digitChar (nat (digitVal a)) = a"
  by (auto simp: isDigit_def digitVal_def digitChar_def)

text \<open>
  Claim C5. \<^verbatim>\<open>normalizeTime\<close> accepts \<^verbatim>\<open>H:MM\<close>, \<^verbatim>\<open>HH:MM\<close>, and either followed by AM or PM
  in any case, and returns the zero-padded 24-hour form: \<^verbatim>\<open>"2:30 PM"\<close> gives \<^verbatim>\<open>"14:30"\<close>
  and \<^verbatim>\<open>"2:30"\<close> gives \<^verbatim>\<open>"02:30"\<close>. An input whose trimmed text has an accepted shape
  gives the 24-hour time when the converted hour is at most 23 and the minute at most
  59, and the error \<^verbatim>\<open>Invalid time values\<close> otherwise; an input whose trimmed text has
  no accepted shape gives the error \<^verbatim>\<open>Invalid time format\<close>; whatever is returned is a
  canonical time. (The pattern is matched against the trimmed input, and the errors
  are \<^verbatim>\<open>Error\<close> values with these messages.)
\<close>

theorem normalizeTime_contract:
  "normalizeTime ''2:30 PM'' = Inr ''14:30'' \<and>
   normalizeTime ''2:30'' = Inr ''02:30'' \<and>
   (\<forall>h m suffix. spec_timeParts h m suffix \<and> trim s = spec_timeText h m suffix \<longrightarrow>
      normalizeTime s =
        (if spec_hour24 (parseInt h) suffix \<le> 23 \<and> parseInt m \<le> 59
         then Inr (spec_pad2 (nat (spec_hour24 (parseInt h) suffix)) @ '':'' @ m)
         else Inl (newError ''Invalid time values''))) \<and>
   ((\<nexists>h m suffix. spec_timeParts h m suffix \<and> trim s = spec_timeText h m suffix) \<longrightarrow>
      normalizeTime s = Inl (newError ''Invalid time format. Use HH:MM or HH:MM AM/PM'')) \<and>
   (\<forall>r. normalizeTime s = Inr r \<longrightarrow> spec_canonicalTime r)"
proof -
  have ex1: "normalizeTime ''2:30 PM'' = Inr ''14:30''"
    using normalizeTime_parts[of "''2''" "''30''" "Some ('' '', ''PM'')" "''2:30 PM''"]
    by (simp add: spec_timeParts_def spec_timeText_def spec_meridiems_def isDigit_def isSpace_def
        trim_def spec_hour24_def parseInt_def digitVal_def spec_pad2_def digitChar_def)
  have ex2: "normalizeTime ''2:30'' = Inr ''02:30''"
    using normalizeTime_parts[of "''2''" "''30''" None "''2:30''"]
    by (simp add: spec_timeParts_def spec_timeText_def isDigit_def isSpace_def
        trim_def spec_hour24_def parseInt_def digitVal_def spec_pad2_def digitChar_def)
  show ?thesis
    using ex1 ex2 normalizeTime_parts[of _ _ _ s] normalizeTime_no_match[of s]
      normalizeTime_canonical[of s]
    by blast
qed

theorem normalizeTime_contract_witness:
  "normalizeTime '' 7:05 pm'' = Inr ''19:05'' \<and> spec_canonicalTime ''19:05'' \<and>
   normalizeTime ''25:00'' = Inl (newError ''Invalid time values'') \<and>
   normalizeTime ''noon'' = Inl (newError ''Invalid time format. Use HH:MM or HH:MM AM/PM'')"
proof -
  have a: "spec_timeParts ''7'' ''05'' (Some ('' '', ''pm'')) \<and>
           trim '' 7:05 pm'' = spec_timeText ''7'' ''05'' (Some ('' '', ''pm''))"
    by (simp add: spec_timeParts_def spec_timeText_def spec_meridiems_def isDigit_def isSpace_def trim_def)
  have r1: "normalizeTime '' 7:05 pm'' = Inr ''19:05''"
    using normalizeTime_contract[of "'' 7:05 pm''", THEN conjunct2, THEN conjunct2, THEN conjunct1,
        rule_format, of "''7''" "''05''" "Some ('' '', ''pm'')"] a
    by (simp add: spec_hour24_def parseInt_def digitVal_def spec_pad2_def digitChar_def)
  have r2: "spec_canonicalTime ''19:05''"
    using normalizeTime_contract[of "'' 7:05 pm''"] r1 by blast
  have b: "spec_timeParts ''25'' ''00'' None \<and> trim ''25:00'' = spec_timeText ''25'' ''00'' None"
    by (simp add: spec_timeParts_def spec_timeText_def isDigit_def isSpace_def trim_def)
  have r3: "normalizeTime ''25:00'' = Inl (newError ''Invalid time values'')"
    using normalizeTime_contract[of "''25:00''", THEN conjunct2, THEN conjunct2, THEN conjunct1,
        rule_format, of "''25''" "''00''" None] b
    by (simp add: spec_hour24_def parseInt_def digitVal_def)
  have none: "timeRegex (trim ''noon'') = None"
    by (simp add: timeRegex_def trim_def isSpace_def)
  have c: "\<nexists>h m suffix. spec_timeParts h m suffix \<and> trim ''noon'' = spec_timeText h m suffix"
    using timeRegex_complete none by fastforce
  have r4: "normalizeTime ''noon'' = Inl (newError ''Invalid time format. Use HH:MM or HH:MM AM/PM'')"
    using normalizeTime_contract[of "''noon''"] c by blast
  show ?thesis using r1 r2 r3 r4 by blast
qed

text \<open>
  Claim C9, as amended. An input whose hour field is between 13 and 23, whose minute
  field is between 00 and 59, and which carries an AM suffix does not fail: the hour is
  left as it is and the time is returned in the 24-hour form, so \<^verbatim>\<open>"13:00 AM"\<close> gives
  \<^verbatim>\<open>"13:00"\<close>.
\<close>

theorem normalizeTime_hour_13_to_23_AM:
  assumes "isDigit a" "isDigit b" "13 \<le> parseInt [a, b]" "parseInt [a, b] \<le> 23"
    and "isDigit c" "isDigit d" "parseInt [c, d] \<le> 59"
    and "list_all isSpace ws" "p \<in> set [''AM'', ''Am'', ''aM'', ''am'']"
    and "trim s = [a, b] @ '':'' @ [c, d] @ ws @ p"
  shows "normalizeTime s = Inr ([a, b] @ '':'' @ [c, d]) \<and>
         normalizeTime ''13:00 AM'' = Inr ''13:00''"
proof -
  let ?suffix = "Some (ws, p)"
  have parts: "spec_timeParts [a, b] [c, d] ?suffix"
    using assms by (auto simp: spec_timeParts_def spec_meridiems_def)
  have tx: "trim s = spec_timeText [a, b] [c, d] ?suffix"
    using assms by (simp add: spec_timeText_def)
  have notpm: "p \<notin> set [''PM'', ''Pm'', ''pM'', ''pm'']" using assms(9) by auto
  have H: "spec_hour24 (parseInt [a, b]) ?suffix = parseInt [a, b]"
    using assms(3) notpm by (simp add: spec_hour24_def)
  have da: "0 \<le> digitVal a \<and> digitVal a \<le> 9" and db: "0 \<le> digitVal b \<and> digitVal b \<le> 9"
    by (rule digitVal_range)+
  define x y where "x = nat (digitVal a)" and "y = nat (digitVal b)"
  have xy: "digitVal a = int x" "digitVal b = int y" "y < 10"
    using da db by (auto simp: x_def y_def)
  have "nat (parseInt [a, b]) = 10 * x + y"
    unfolding parseInt_2 xy by (simp add: nat_add_distrib nat_mult_distrib)
  then have dv: "nat (parseInt [a, b]) div 10 = nat (digitVal a)"
    "nat (parseInt [a, b]) mod 10 = nat (digitVal b)"
    using xy(3) by (simp_all add: x_def y_def)
  have pad: "spec_pad2 (nat (parseInt [a, b])) = [a, b]"
    unfolding spec_pad2_def dv using assms(1,2) by (simp add: isDigit_digitChar_digitVal)
  have gen: "normalizeTime s = Inr ([a, b] @ '':'' @ [c, d])"
    using normalizeTime_parts[OF parts tx] assms(4,7) unfolding H pad by simp
  have ex: "normalizeTime ''13:00 AM'' = Inr ''13:00''"
    using normalizeTime_parts[of "''13''" "''00''" "Some ('' '', ''AM'')" "''13:00 AM''"]
    by (simp add: spec_timeParts_def spec_timeText_def spec_meridiems_def isDigit_def isSpace_def
        trim_def spec_hour24_def parseInt_def digitVal_def spec_pad2_def digitChar_def)
  show ?thesis using gen ex by simp
qed

theorem normalizeTime_hour_13_to_23_AM_witness:
  "normalizeTime '' 23:59am '' = Inr ''23:59'' \<and> normalizeTime ''13:00 AM'' = Inr ''13:00''"
  using normalizeTime_hour_13_to_23_AM[of "CHR ''2''" "CHR ''3''" "CHR ''5''" "CHR ''9''" "[]" "''am''" "'' 23:59am ''"]
  by (simp add: isDigit_def parseInt_def digitVal_def isSpace_def trim_def)

text \<open>
  Claim C9 as stated fails where the minute field is not a minute: \<^verbatim>\<open>"13:60 AM"\<close> has
  the hour field 13 and an AM suffix, and the range check on the minutes rejects it.
\<close>

theorem normalizeTime_13_60_AM_counterexample:
  "normalizeTime ''13:60 AM'' = Inl (newError ''Invalid time values'')"
  using normalizeTime_parts[of "''13''" "''60''" "Some ('' '', ''AM'')" "''13:60 AM''"]
  by (simp add: spec_timeParts_def spec_timeText_def spec_meridiems_def isDigit_def isSpace_def
      trim_def spec_hour24_def parseInt_def digitVal_def)

section \<open>Slug generation: the loop, its lookups and its result\<close>

lemma spec_candidate_Suc: "spec_candidate base (Suc k) = base @ ''-'' @ natToString (Suc k)"
  by (simp add: spec_candidate_def)

lemma slugLoop_found:
  assumes "a \<le> n" "n < MAX_ATTEMPTS"
    and "\<forall>k. a \<le> k \<and> k < n \<longrightarrow> (\<exists>i. findOne (slugQuery ex (spec_candidate base k)) = Inr (Some i))"
    and "findOne (slugQuery ex (spec_candidate base n)) = Inr None"
  shows "slugLoop findOne base ex a (spec_candidate base a) (Suc a) =
           (Inr (spec_candidate base n), map (\<lambda>k. slugQuery ex (spec_candidate base k)) [a..<Suc n])"
  using assms
proof (induction "n - a" arbitrary: a)
  case 0
  then have "a = n" by simp
  with 0 show ?case by (subst slugLoop.simps) simp
next
  case (Suc d)
  then have lt: "a < n" and an: "a < MAX_ATTEMPTS" by auto
  from Suc.prems(3) lt obtain i where i: "findOne (slugQuery ex (spec_candidate base a)) = Inr (Some i)"
    by auto
  have IH: "slugLoop findOne base ex (Suc a) (spec_candidate base (Suc a)) (Suc (Suc a)) =
           (Inr (spec_candidate base n), map (\<lambda>k. slugQuery ex (spec_candidate base k)) [Suc a..<Suc n])"
    using Suc.hyps(1)[of "Suc a"] Suc.hyps(2) Suc.prems lt by auto
  have up: "[a..<Suc n] = a # [Suc a..<Suc n]" using lt by (simp add: upt_conv_Cons)
  have step: "slugLoop findOne base ex a (spec_candidate base a) (Suc a) =
      (case slugLoop findOne base ex (Suc a) (spec_candidate base (Suc a)) (Suc (Suc a)) of
         (r, qs) \<Rightarrow> (r, slugQuery ex (spec_candidate base a) # qs))"
    by (subst slugLoop.simps) (simp add: an i spec_candidate_Suc)
  show ?case unfolding step IH up by simp
qed

lemma slugLoop_exhausted:
  assumes "a \<le> MAX_ATTEMPTS"
    and "\<forall>k. a \<le> k \<and> k < MAX_ATTEMPTS \<longrightarrow> (\<exists>i. findOne (slugQuery ex (spec_candidate base k)) = Inr (Some i))"
  shows "slugLoop findOne base ex a (spec_candidate base a) (Suc a) =
           (Inl (newError ''Unable to generate unique slug after 100 attempts''),
            map (\<lambda>k. slugQuery ex (spec_candidate base k)) [a..<MAX_ATTEMPTS])"
  using assms
proof (induction "MAX_ATTEMPTS - a" arbitrary: a)
  case 0
  then have "a = MAX_ATTEMPTS" by simp
  then show ?case
    by (subst slugLoop.simps) (simp add: MAX_ATTEMPTS_def natToString.simps digitChar_def)
next
  case (Suc d)
  then have an: "a < MAX_ATTEMPTS" by auto
  from Suc.prems(2) an obtain i where i: "findOne (slugQuery ex (spec_candidate base a)) = Inr (Some i)"
    by auto
  have IH: "slugLoop findOne base ex (Suc a) (spec_candidate base (Suc a)) (Suc (Suc a)) =
           (Inl (newError ''Unable to generate unique slug after 100 attempts''),
            map (\<lambda>k. slugQuery ex (spec_candidate base k)) [Suc a..<MAX_ATTEMPTS])"
    using Suc.hyps(1)[of "Suc a"] Suc.hyps(2) Suc.prems an by auto
  have up: "[a..<MAX_ATTEMPTS] = a # [Suc a..<MAX_ATTEMPTS]" using an by (simp add: upt_conv_Cons)
  have step: "slugLoop findOne base ex a (spec_candidate base a) (Suc a) =
      (case slugLoop findOne base ex (Suc a) (spec_candidate base (Suc a)) (Suc (Suc a)) of
         (r, qs) \<Rightarrow> (r, slugQuery ex (spec_candidate base a) # qs))"
    by (subst slugLoop.simps) (simp add: an i spec_candidate_Suc)
  show ?case unfolding step IH by (subst up) simp
qed

lemma slugLoop_trace_length:
  "length (snd (slugLoop findOne base ex a s c)) \<le> MAX_ATTEMPTS - a"
proof (induction findOne base ex a s c rule: slugLoop.induct)
  case (1 findOne baseSlug excludeId attempt s counter)
  show ?case
  proof (cases "attempt < MAX_ATTEMPTS")
    case False
    then show ?thesis by (subst slugLoop.simps) simp
  next
    case True
    show ?thesis
    proof (cases "findOne (slugQuery excludeId s)")
      case (Inl e)
      with True show ?thesis by (subst slugLoop.simps) simp
    next
      case (Inr r)
      show ?thesis
      proof (cases r)
        case None
        with True Inr show ?thesis by (subst slugLoop.simps) simp
      next
        case (Some i)
        from "1.IH"[OF True Inr Some] True Inr Some show ?thesis
          by (subst slugLoop.simps) (auto split: prod.splits)
      qed
    qed
  qed
qed

lemma slugLoop_result_free:
  "fst (slugLoop findOne base ex a s c) = Inr r \<Longrightarrow> findOne (slugQuery ex r) = Inr None"
proof (induction findOne base ex a s c rule: slugLoop.induct)
  case (1 findOne baseSlug excludeId attempt s counter)
  show ?case
  proof (cases "attempt < MAX_ATTEMPTS")
    case False
    with "1.prems" show ?thesis by (subst (asm) slugLoop.simps) simp
  next
    case True
    show ?thesis
    proof (cases "findOne (slugQuery excludeId s)")
      case (Inl e)
      with True "1.prems" show ?thesis by (subst (asm) slugLoop.simps) simp
    next
      case (Inr q)
      show ?thesis
      proof (cases q)
        case None
        with True Inr "1.prems" show ?thesis by (subst (asm) slugLoop.simps) simp
      next
        case (Some i)
        from "1.prems" True Inr Some
        have "fst (slugLoop findOne baseSlug excludeId (attempt + 1)
                 (baseSlug @ ''-'' @ natToString counter) (counter + 1)) = Inr r"
          by (subst (asm) slugLoop.simps) (auto split: prod.splits)
        from "1.IH"[OF True Inr Some this] show ?thesis .
      qed
    qed
  qed
qed

lemma slugLoop_queries_exclude:
  "q \<in> set (snd (slugLoop findOne base (Some i) a s c)) \<Longrightarrow> \<exists>t. q = BySlugNotId t i"
proof (induction findOne base "Some i :: objectid option" a s c rule: slugLoop.induct)
  case (1 findOne baseSlug attempt s counter)
  show ?case
  proof (cases "attempt < MAX_ATTEMPTS")
    case False
    with "1.prems" show ?thesis by (subst (asm) slugLoop.simps) simp
  next
    case True
    show ?thesis
    proof (cases "findOne (slugQuery (Some i) s)")
      case (Inl e)
      with True "1.prems" show ?thesis
        by (subst (asm) slugLoop.simps) (simp add: slugQuery_def)
    next
      case (Inr r)
      show ?thesis
      proof (cases r)
        case None
        with True Inr "1.prems" show ?thesis
          by (subst (asm) slugLoop.simps) (simp add: slugQuery_def)
      next
        case (Some j)
        from "1.prems" True Inr Some
        have "q = slugQuery (Some i) s \<or> q \<in> set (snd (slugLoop findOne baseSlug (Some i) (attempt + 1)
                 (baseSlug @ ''-'' @ natToString counter) (counter + 1)))"
          by (subst (asm) slugLoop.simps) (auto split: prod.splits)
        with "1.hyps"[OF True Inr Some] show ?thesis by (auto simp: slugQuery_def)
      qed
    qed
  qed
qed

lemma matchesQuery_slugQuery:
  "matchesQuery (slugQuery ex s) e \<longleftrightarrow>
     slug e = s \<and> (case ex of None \<Rightarrow> True | Some i \<Rightarrow> oid e \<noteq> i)"
  by (cases ex) (simp_all add: slugQuery_def)

lemma findOneId_free:
  "findOneId evs (slugQuery ex s) = Inr None \<longleftrightarrow> \<not> spec_slugTaken evs ex s"
  by (auto simp: findOneId_def spec_slugTaken_def find_None_iff list_ex_iff matchesQuery_slugQuery)

lemma findOneId_taken:
  "(\<exists>i. findOneId evs (slugQuery ex s) = Inr (Some i)) \<longleftrightarrow> spec_slugTaken evs ex s"
proof -
  have "(\<exists>i. findOneId evs (slugQuery ex s) = Inr (Some i)) \<longleftrightarrow>
        find (matchesQuery (slugQuery ex s)) evs \<noteq> None"
    by (auto simp: findOneId_def)
  then show ?thesis
    by (auto simp: spec_slugTaken_def find_None_iff list_ex_iff matchesQuery_slugQuery)
qed

lemma replaceSpaces_chars:
  "list_all slugChar s \<Longrightarrow> spec_slugText (replaceSpaces s)"
  by (induction s rule: replaceSpaces.induct) (auto simp: spec_slugText_def slugChar_def)

lemma collapseHyphens_subset: "set (collapseHyphens s) \<subseteq> set s"
  by (induction s rule: collapseHyphens.induct) auto

lemma stripHyphens_subset: "set (stripHyphens s) \<subseteq> set s"
proof -
  have a: "set (case s of [] \<Rightarrow> [] | c # cs \<Rightarrow> if c = CHR ''-'' then cs else s) \<subseteq> set s"
    by (cases s) auto
  have b: "set (if t \<noteq> [] \<and> last t = CHR ''-'' then butlast t else t) \<subseteq> set t" for t :: string
    by (auto dest: in_set_butlastD)
  show ?thesis unfolding stripHyphens_def Let_def using a b by blast
qed

lemma generateSlug_text: "spec_slugText (generateSlug t)"
proof -
  have "spec_slugText (replaceSpaces (filter slugChar (trim (toLowerCase t))))"
    by (rule replaceSpaces_chars) (simp add: list_all_iff)
  then show ?thesis
    unfolding generateSlug_def spec_slugText_def list_all_iff
    using collapseHyphens_subset stripHyphens_subset by blast
qed

lemma digitChar_digit: "n < 10 \<Longrightarrow> isDigit (digitChar n)"
  using isDigit_digitChar by blast

lemma natToString_digits: "list_all isDigit (natToString n)"
proof (induction n rule: natToString.induct)
  case (1 n)
  show ?case
  proof (cases "n < 10")
    case True
    then show ?thesis by (subst natToString.simps) (simp add: digitChar_digit)
  next
    case False
    with 1 show ?thesis by (subst natToString.simps) (simp add: digitChar_digit)
  qed
qed

lemma spec_candidate_text: "spec_slugText base \<Longrightarrow> spec_slugText (spec_candidate base k)"
  using natToString_digits[of k]
  by (auto simp: spec_candidate_def spec_slugText_def list_all_iff)

lemma lowerChar_slug_all: "\<forall>c\<in>set ''abcdefghijklmnopqrstuvwxyz0123456789-''. lowerChar c = c"
  by (simp add: lowerChar_def)

lemma lowerChar_slug: "isLower c \<or> isDigit c \<or> c = CHR ''-'' \<Longrightarrow> lowerChar c = c"
proof -
  assume "isLower c \<or> isDigit c \<or> c = CHR ''-''"
  then have "c \<in> set ''abcdefghijklmnopqrstuvwxyz0123456789-''"
    unfolding isLower_def isDigit_def by auto
  with lowerChar_slug_all show ?thesis by blast
qed

lemma not_space_slug: "isLower c \<or> isDigit c \<or> c = CHR ''-'' \<Longrightarrow> \<not> isSpace c"
  unfolding isLower_def isDigit_def isSpace_def by auto

lemma trim_no_space: "\<forall>c\<in>set s. \<not> isSpace c \<Longrightarrow> trim s = s"
proof -
  assume a: "\<forall>c\<in>set s. \<not> isSpace c"
  have d: "dropWhile isSpace u = u" if "\<forall>c\<in>set u. \<not> isSpace c" for u
    using that by (cases u) auto
  show ?thesis unfolding trim_def using a by (simp add: d)
qed

lemma slugSetters_id: "spec_slugText s \<Longrightarrow> slugSetters s = s"
proof -
  assume a: "spec_slugText s"
  then have "toLowerCase s = s"
    by (auto simp: spec_slugText_def list_all_iff toLowerCase_def lowerChar_slug intro: map_idI)
  moreover have "\<forall>c\<in>set s. \<not> isSpace c"
    using a not_space_slug by (auto simp: spec_slugText_def list_all_iff)
  ultimately show ?thesis by (simp add: slugSetters_def trim_no_space)
qed

text \<open>The definitions that evaluate \<^verbatim>\<open>generateSlug\<close> on a given title.\<close>

lemmas slug_eval = generateSlug_def toLowerCase_def lowerChar_def trim_def isSpace_def slugChar_def
  isLower_def isDigit_def stripHyphens_def

lemma generateUniqueSlugTraced_found:
  assumes "n < 100"
    and "\<forall>k<n. spec_slugTaken evs ex (spec_candidate (generateSlug t) k)"
    and "\<not> spec_slugTaken evs ex (spec_candidate (generateSlug t) n)"
  shows "generateUniqueSlugTraced (findOneId evs) t ex =
           (Inr (spec_candidate (generateSlug t) n),
            map (\<lambda>k. slugQuery ex (spec_candidate (generateSlug t) k)) [0..<Suc n])"
proof -
  have c0: "spec_candidate (generateSlug t) 0 = generateSlug t" by (simp add: spec_candidate_def)
  have "slugLoop (findOneId evs) (generateSlug t) ex 0 (spec_candidate (generateSlug t) 0) (Suc 0) =
           (Inr (spec_candidate (generateSlug t) n),
            map (\<lambda>k. slugQuery ex (spec_candidate (generateSlug t) k)) [0..<Suc n])"
    using assms by (intro slugLoop_found) (auto simp: MAX_ATTEMPTS_def findOneId_taken findOneId_free)
  then show ?thesis by (simp add: generateUniqueSlugTraced_def c0 Let_def)
qed

lemma generateUniqueSlugTraced_exhausted:
  assumes "\<forall>k<100. \<exists>i. findOne (slugQuery ex (spec_candidate (generateSlug t) k)) = Inr (Some i)"
  shows "generateUniqueSlugTraced findOne t ex =
           (Inl (newError ''Unable to generate unique slug after 100 attempts''),
            map (\<lambda>k. slugQuery ex (spec_candidate (generateSlug t) k)) [0..<100])"
proof -
  have c0: "spec_candidate (generateSlug t) 0 = generateSlug t" by (simp add: spec_candidate_def)
  have "slugLoop findOne (generateSlug t) ex 0 (spec_candidate (generateSlug t) 0) (Suc 0) =
           (Inl (newError ''Unable to generate unique slug after 100 attempts''),
            map (\<lambda>k. slugQuery ex (spec_candidate (generateSlug t) k)) [0..<MAX_ATTEMPTS])"
    using assms by (intro slugLoop_exhausted) (auto simp: MAX_ATTEMPTS_def)
  then show ?thesis by (simp add: generateUniqueSlugTraced_def c0 Let_def MAX_ATTEMPTS_def)
qed

text \<open>
  Claim C3. \<^verbatim>\<open>generateUniqueSlug\<close> sends at most 100 lookups; when each of the 100
  candidate slugs collides it fails with the error \<^verbatim>\<open>Unable to generate unique slug
  after 100 attempts\<close>, having looked up exactly the 100 candidates; and a slug it
  returns is one whose lookup found no document.
\<close>

theorem generateUniqueSlug_bounded:
  "length (snd (generateUniqueSlugTraced findOne t ex)) \<le> 100 \<and>
   ((\<forall>k<100. \<exists>i. findOne (slugQuery ex (spec_candidate (generateSlug t) k)) = Inr (Some i)) \<longrightarrow>
      generateUniqueSlug findOne t ex =
        Inl (newError ''Unable to generate unique slug after 100 attempts'') \<and>
      snd (generateUniqueSlugTraced findOne t ex) =
        map (\<lambda>k. slugQuery ex (spec_candidate (generateSlug t) k)) [0..<100]) \<and>
   (\<forall>r. generateUniqueSlug findOne t ex = Inr r \<longrightarrow> findOne (slugQuery ex r) = Inr None)"
proof -
  have a: "length (snd (generateUniqueSlugTraced findOne t ex)) \<le> 100"
    using slugLoop_trace_length[of findOne "generateSlug t" ex 0 "generateSlug t" 1]
    by (simp add: generateUniqueSlugTraced_def Let_def MAX_ATTEMPTS_def)
  have c: "\<forall>r. generateUniqueSlug findOne t ex = Inr r \<longrightarrow> findOne (slugQuery ex r) = Inr None"
    using slugLoop_result_free[of findOne "generateSlug t" ex 0 "generateSlug t" 1]
    by (simp add: generateUniqueSlug_def generateUniqueSlugTraced_def Let_def)
  show ?thesis
    using a c generateUniqueSlugTraced_exhausted[of findOne ex t]
    by (simp add: generateUniqueSlug_def)
qed

theorem generateUniqueSlug_bounded_witness:
  "generateUniqueSlug (findOneId [exampleEvent ''e1'' ''Meetup'' ''meetup'']) ''Meetup'' None = Inr ''meetup-1'' \<and>
   findOneId [exampleEvent ''e1'' ''Meetup'' ''meetup''] (BySlug ''meetup-1'') = Inr None \<and>
   generateUniqueSlug exampleAlwaysFound ''Meetup'' None =
     Inl (newError ''Unable to generate unique slug after 100 attempts'') \<and>
   length (snd (generateUniqueSlugTraced exampleAlwaysFound ''Meetup'' None)) = 100"
proof -
  let ?f = "findOneId [exampleEvent ''e1'' ''Meetup'' ''meetup'']"
  have g: "generateSlug ''Meetup'' = ''meetup''"
    by (simp add: slug_eval)
  have r: "generateUniqueSlug ?f ''Meetup'' None = Inr ''meetup-1''"
    using generateUniqueSlugTraced_found[of 1 "[exampleEvent ''e1'' ''Meetup'' ''meetup'']" None "''Meetup''"]
    by (simp add: generateUniqueSlug_def g spec_candidate_def spec_slugTaken_def exampleEvent_def
        natToString.simps digitChar_def)
  from generateUniqueSlug_bounded[of ?f "''Meetup''" None] r
  have "?f (slugQuery None ''meetup-1'') = Inr None" by blast
  then have f: "?f (BySlug ''meetup-1'') = Inr None" by (simp add: slugQuery_def)
  have all: "\<forall>k<100. \<exists>i. exampleAlwaysFound (slugQuery None (spec_candidate (generateSlug ''Meetup'') k)) = Inr (Some i)"
    by (simp add: exampleAlwaysFound_def)
  from generateUniqueSlug_bounded[of exampleAlwaysFound "''Meetup''" None] all
  have e: "generateUniqueSlug exampleAlwaysFound ''Meetup'' None =
             Inl (newError ''Unable to generate unique slug after 100 attempts'')"
    and l: "length (snd (generateUniqueSlugTraced exampleAlwaysFound ''Meetup'' None)) = 100"
    by simp_all
  from r f e l show ?thesis by blast
qed



text \<open>
  Claim C4. When a document is being updated, every lookup of \<^verbatim>\<open>generateUniqueSlug\<close>
  excludes the document named by \<^verbatim>\<open>excludeId\<close>; so when the base slug of the new title
  is held by no event but that document, the base slug is returned after one lookup,
  and the pre-save hook of a renamed document leaves the document with that slug.
\<close>

theorem generateUniqueSlug_excludes_own_document:
  "(\<forall>q\<in>set (snd (generateUniqueSlugTraced findOne t (Some i))). \<exists>s. q = BySlugNotId s i) \<and>
   ((\<forall>e\<in>set evs. slug e = generateSlug t \<longrightarrow> oid e = i) \<longrightarrow>
      generateUniqueSlugTraced (findOneId evs) t (Some i) =
        (Inr (generateSlug t), [BySlugNotId (generateSlug t) i])) \<and>
   ((\<forall>e\<in>set evs. slug e = generateSlug (title (doc d)) \<longrightarrow> oid e = oid (doc d)) \<and>
    isModified d ''title'' \<and> \<not> isModified d ''date'' \<and> \<not> isModified d ''time'' \<longrightarrow>
      eventPreSave (findOneId evs) dateParse d =
        (None, (doc d)\<lparr>slug := generateSlug (title (doc d))\<rparr>))"
proof -
  have a: "\<forall>q\<in>set (snd (generateUniqueSlugTraced findOne t (Some i))). \<exists>s. q = BySlugNotId s i"
    using slugLoop_queries_exclude[of _ findOne "generateSlug t" i 0 "generateSlug t" 1]
    by (auto simp: generateUniqueSlugTraced_def Let_def)
  have b: "generateUniqueSlugTraced (findOneId evs) u (Some j) =
             (Inr (generateSlug u), [BySlugNotId (generateSlug u) j])"
    if "\<forall>e\<in>set evs. slug e = generateSlug u \<longrightarrow> oid e = j" for u j
  proof -
    have "\<not> spec_slugTaken evs (Some j) (spec_candidate (generateSlug u) 0)"
      using that by (auto simp: spec_slugTaken_def spec_candidate_def list_ex_iff)
    then show ?thesis
      using generateUniqueSlugTraced_found[of 0 evs "Some j" u]
      by (simp add: spec_candidate_def slugQuery_def)
  qed
  have c: "eventPreSave (findOneId evs) dateParse d =
        (None, (doc d)\<lparr>slug := generateSlug (title (doc d))\<rparr>)"
    if "\<forall>e\<in>set evs. slug e = generateSlug (title (doc d)) \<longrightarrow> oid e = oid (doc d)"
      "isModified d ''title''" "\<not> isModified d ''date''" "\<not> isModified d ''time''"
    using b[OF that(1)] that(2,3,4) slugSetters_id[OF generateSlug_text[of "title (doc d)"]]
    by (simp add: eventPreSave_def generateUniqueSlug_def Let_def)
  show ?thesis using a b c by blast
qed

theorem generateUniqueSlug_excludes_own_document_witness:
  "generateUniqueSlugTraced (findOneId [exampleEvent ''e1'' ''Meet Up'' ''meetup'']) ''Meetup'' (Some ''e1'') =
     (Inr ''meetup'', [BySlugNotId ''meetup'' ''e1'']) \<and>
   eventPreSave (findOneId [exampleEvent ''e1'' ''Meet Up'' ''meetup'']) exampleDateParse
     \<lparr>doc = exampleEvent ''e1'' ''Meetup'' ''meet-up'', isNew = False, modifiedPaths = [''title'']\<rparr> =
     (None, exampleEvent ''e1'' ''Meetup'' ''meetup'')"
proof -
  let ?evs = "[exampleEvent ''e1'' ''Meet Up'' ''meetup'']"
  let ?d = "\<lparr>doc = exampleEvent ''e1'' ''Meetup'' ''meet-up'', isNew = False, modifiedPaths = [''title'']\<rparr>"
  have g: "generateSlug ''Meetup'' = ''meetup''" by (simp add: slug_eval)
  note T = generateUniqueSlug_excludes_own_document[of "findOneId ?evs" "''Meetup''" "''e1''" ?evs ?d exampleDateParse]
  have h1: "\<forall>e\<in>set ?evs. slug e = generateSlug ''Meetup'' \<longrightarrow> oid e = ''e1''"
    by (simp add: exampleEvent_def)
  have a: "generateUniqueSlugTraced (findOneId ?evs) ''Meetup'' (Some ''e1'') =
     (Inr ''meetup'', [BySlugNotId ''meetup'' ''e1''])"
    using T h1 g by simp
  have h2: "(\<forall>e\<in>set ?evs. slug e = generateSlug (title (doc ?d)) \<longrightarrow> oid e = oid (doc ?d)) \<and>
    isModified ?d ''title'' \<and> \<not> isModified ?d ''date'' \<and> \<not> isModified ?d ''time''"
    by (simp add: exampleEvent_def isModified_def)
  have b: "eventPreSave (findOneId ?evs) exampleDateParse ?d = (None, exampleEvent ''e1'' ''Meetup'' ''meetup'')"
    using T[THEN conjunct2, THEN conjunct2, rule_format, OF h2] g
    by (simp add: exampleEvent_def)
  from a b show ?thesis by blast
qed

section \<open>Slug generation: creations with one base slug\<close>

lemma parseInt_snoc: "parseInt (xs @ [c]) = 10 * parseInt xs + digitVal c"
  by (simp add: parseInt_def)

lemma parseInt_natToString: "parseInt (natToString n) = int n"
proof (induction n rule: natToString.induct)
  case (1 n)
  show ?case
  proof (cases "n < 10")
    case True
    then show ?thesis
      by (subst natToString.simps) (simp add: parseInt_1 isDigit_digitChar)
  next
    case False
    have m: "n mod 10 < 10" by simp
    have "parseInt (natToString n) = 10 * parseInt (natToString (n div 10)) + digitVal (digitChar (n mod 10))"
      using False by (subst natToString.simps) (simp add: parseInt_snoc)
    also have "\<dots> = 10 * int (n div 10) + int (n mod 10)"
      using 1 False isDigit_digitChar[OF m] by simp
    also have "\<dots> = int n" by presburger
    finally show ?thesis .
  qed
qed

lemma natToString_inj: "natToString j = natToString k \<Longrightarrow> j = k"
  by (metis parseInt_natToString of_nat_eq_iff)

lemma spec_candidate_inj: "spec_candidate base j = spec_candidate base k \<Longrightarrow> j = k"
  by (auto simp: spec_candidate_def dest: natToString_inj split: if_splits)

lemma spec_slugTaken_fresh:
  "\<forall>e\<in>set evs. oid e \<noteq> i \<Longrightarrow> spec_slugTaken evs (Some i) s = spec_slugTaken evs None s"
  by (auto simp: spec_slugTaken_def list_ex_iff)

lemma spec_slugTaken_None: "spec_slugTaken evs None s \<longleftrightarrow> (\<exists>e\<in>set evs. slug e = s)"
  by (auto simp: spec_slugTaken_def list_ex_iff)

lemma eventPreSave_new:
  assumes slug: "generateUniqueSlug findOne (title (doc d)) (Some (oid (doc d))) = Inr s"
    and new: "isNew d"
    and dt: "isModified d ''date'' \<longrightarrow> \<not> isl (normalizeDate dateParse (date (doc d)))"
    and tm: "isModified d ''time'' \<longrightarrow> \<not> isl (normalizeTime (time (doc d)))"
  shows "\<exists>e. eventPreSave findOne dateParse d = (None, e) \<and> slug e = slugSetters s \<and> oid e = oid (doc d)"
proof -
  obtain vd where vd: "isModified d ''date'' \<Longrightarrow> normalizeDate dateParse (date (doc d)) = Inr vd"
    using dt by (cases "normalizeDate dateParse (date (doc d))") auto
  obtain vt where vt: "isModified d ''time'' \<Longrightarrow> normalizeTime (time (doc d)) = Inr vt"
    using tm by (cases "normalizeTime (time (doc d))") auto
  show ?thesis
    by (cases "isModified d ''date''"; cases "isModified d ''time''")
       (simp_all add: eventPreSave_def Let_def new slug vd vt)
qed

lemma eventPreSave_slug_error:
  assumes "generateUniqueSlug findOne (title (doc d)) (Some (oid (doc d))) = Inl err" "isNew d"
  shows "eventPreSave findOne dateParse d = (Some err, doc d)"
  unfolding eventPreSave_def Let_def using assms by simp

lemma saveEvent_new:
  assumes new: "isNew d"
    and base: "generateSlug (title (doc d)) = base"
    and dt: "isModified d ''date'' \<longrightarrow> \<not> isl (normalizeDate dateParse (date (doc d)))"
    and tm: "isModified d ''time'' \<longrightarrow> \<not> isl (normalizeTime (time (doc d)))"
    and fresh: "\<forall>e\<in>set evs. oid e \<noteq> oid (doc d)"
    and n: "n < 100"
    and taken: "\<forall>k<n. \<exists>e\<in>set evs. slug e = spec_candidate base k"
    and free: "\<forall>e\<in>set evs. slug e \<noteq> spec_candidate base n"
  shows "\<exists>e. saveEvent dateParse now evs d = (Inr e, evs @ [e]) \<and>
             slug e = spec_candidate base n \<and> oid e = oid (doc d)"
proof -
  let ?i = "oid (doc d)"
  have t1: "\<forall>k<n. spec_slugTaken evs (Some ?i) (spec_candidate (generateSlug (title (doc d))) k)"
    using taken by (simp add: spec_slugTaken_fresh[OF fresh] spec_slugTaken_None base)
  have t2: "\<not> spec_slugTaken evs (Some ?i) (spec_candidate (generateSlug (title (doc d))) n)"
    using free by (simp add: spec_slugTaken_fresh[OF fresh] spec_slugTaken_None base)
  have g: "generateUniqueSlug (findOneId evs) (title (doc d)) (Some ?i) = Inr (spec_candidate base n)"
    using generateUniqueSlugTraced_found[OF n t1 t2] by (simp add: generateUniqueSlug_def base)
  from eventPreSave_new[OF g new dt tm]
  obtain e where e: "eventPreSave (findOneId evs) dateParse d = (None, e)"
    and se: "slug e = slugSetters (spec_candidate base n)" and oe: "oid e = ?i" by blast
  have "spec_slugText (spec_candidate base n)"
    using spec_candidate_text[OF generateSlug_text[of "title (doc d)"]] base by simp
  then have se': "slug e = spec_candidate base n" using se by (simp add: slugSetters_id)
  let ?st = "e\<lparr>createdAt := now, updatedAt := now\<rparr>"
  have w: "writeEvent evs True ?st = Inr (evs @ [?st])"
    using fresh free se' oe by (auto simp: writeEvent_def list_ex_iff)
  have "saveEvent dateParse now evs d = (Inr ?st, evs @ [?st])"
    unfolding saveEvent_def using e new w by (simp add: Let_def)
  then show ?thesis using se' oe by (intro exI[of _ ?st]) simp
qed

lemma saveEvents_same_base:
  assumes "\<forall>d\<in>set ds. isNew d \<and> generateSlug (title (doc d)) = base \<and>
        (isModified d ''date'' \<longrightarrow> \<not> isl (normalizeDate dateParse (date (doc d)))) \<and>
        (isModified d ''time'' \<longrightarrow> \<not> isl (normalizeTime (time (doc d)))) \<and>
        (\<forall>e\<in>set evs. oid e \<noteq> oid (doc d))"
    and "distinct (map (\<lambda>d. oid (doc d)) ds)"
    and "n + length ds \<le> 100"
    and "\<forall>k<n. \<exists>e\<in>set evs. slug e = spec_candidate base k"
    and "\<forall>e\<in>set evs. \<forall>k. n \<le> k \<and> k < 100 \<longrightarrow> slug e \<noteq> spec_candidate base k"
  shows "map (map_sum id slug) (fst (saveEvents dateParse now evs ds)) =
           map (\<lambda>k. Inr (spec_candidate base k)) [n..<n + length ds] \<and>
         (\<forall>k<n + length ds. \<exists>e\<in>set (snd (saveEvents dateParse now evs ds)). slug e = spec_candidate base k) \<and>
         oid ` set (snd (saveEvents dateParse now evs ds)) = oid ` set evs \<union> (\<lambda>d. oid (doc d)) ` set ds"
  using assms
proof (induction ds arbitrary: evs n)
  case Nil
  then show ?case by simp
next
  case (Cons d ds)
  from Cons.prems(1) have d: "isNew d" "generateSlug (title (doc d)) = base"
      "isModified d ''date'' \<longrightarrow> \<not> isl (normalizeDate dateParse (date (doc d)))"
      "isModified d ''time'' \<longrightarrow> \<not> isl (normalizeTime (time (doc d)))"
      "\<forall>e\<in>set evs. oid e \<noteq> oid (doc d)"
    by auto
  from Cons.prems(3) have n: "n < 100" by simp
  from Cons.prems(5) n have free: "\<forall>e\<in>set evs. slug e \<noteq> spec_candidate base n" by auto
  from saveEvent_new[OF d n Cons.prems(4) free]
  obtain e where e: "saveEvent dateParse now evs d = (Inr e, evs @ [e])"
    and se: "slug e = spec_candidate base n" and oe: "oid e = oid (doc d)" by blast
  have p1: "\<forall>d'\<in>set ds. isNew d' \<and> generateSlug (title (doc d')) = base \<and>
        (isModified d' ''date'' \<longrightarrow> \<not> isl (normalizeDate dateParse (date (doc d')))) \<and>
        (isModified d' ''time'' \<longrightarrow> \<not> isl (normalizeTime (time (doc d')))) \<and>
        (\<forall>x\<in>set (evs @ [e]). oid x \<noteq> oid (doc d'))"
    using Cons.prems(1,2) oe by auto
  have p2: "distinct (map (\<lambda>d. oid (doc d)) ds)" using Cons.prems(2) by simp
  have p3: "Suc n + length ds \<le> 100" using Cons.prems(3) by simp
  have p4: "\<forall>k<Suc n. \<exists>x\<in>set (evs @ [e]). slug x = spec_candidate base k"
    using Cons.prems(4) se by (auto simp: less_Suc_eq)
  have p5: "\<forall>x\<in>set (evs @ [e]). \<forall>k. Suc n \<le> k \<and> k < 100 \<longrightarrow> slug x \<noteq> spec_candidate base k"
    using Cons.prems(5) se by (auto dest: spec_candidate_inj)
  note IH = Cons.IH[OF p1 p2 p3 p4 p5]
  have "n < n + length (d # ds)" by simp
  from upt_conv_Cons[OF this]
  have up: "[n..<n + length (d # ds)] = n # [Suc n..<Suc n + length ds]" by simp
  have r: "saveEvents dateParse now evs (d # ds) =
      (Inr e # fst (saveEvents dateParse now (evs @ [e]) ds), snd (saveEvents dateParse now (evs @ [e]) ds))"
    using e by (simp split: prod.splits)
  show ?case
    unfolding r up using IH se oe by auto
qed

lemma saveEvents_append:
  "saveEvents dateParse now evs (xs @ ys) =
     (fst (saveEvents dateParse now evs xs) @ fst (saveEvents dateParse now (snd (saveEvents dateParse now evs xs)) ys),
      snd (saveEvents dateParse now (snd (saveEvents dateParse now evs xs)) ys))"
  by (induction xs arbitrary: evs) (simp_all add: split_def)

lemma length_saveEvents: "length (fst (saveEvents dateParse now evs ds)) = length ds"
  by (induction ds arbitrary: evs) (simp_all add: split_def)

lemma saveEvent_exhausted:
  assumes new: "isNew d" and base: "generateSlug (title (doc d)) = base"
    and fresh: "\<forall>e\<in>set evs. oid e \<noteq> oid (doc d)"
    and taken: "\<forall>k<100. \<exists>e\<in>set evs. slug e = spec_candidate base k"
  shows "saveEvent dateParse now evs d =
           (Inl (newError ''Unable to generate unique slug after 100 attempts''), evs)"
proof -
  let ?i = "oid (doc d)"
  have "\<forall>k<100. \<exists>i. findOneId evs (slugQuery (Some ?i) (spec_candidate (generateSlug (title (doc d))) k)) = Inr (Some i)"
    using taken by (simp add: findOneId_taken spec_slugTaken_fresh[OF fresh] spec_slugTaken_None base)
  from generateUniqueSlugTraced_exhausted[OF this]
  have "generateUniqueSlug (findOneId evs) (title (doc d)) (Some ?i) =
          Inl (newError ''Unable to generate unique slug after 100 attempts'')"
    by (simp add: generateUniqueSlug_def)
  from eventPreSave_slug_error[OF this new] show ?thesis
    by (simp add: saveEvent_def)
qed

lemma exampleNewDocs_set:
  "d \<in> set (exampleNewDocs t n) \<Longrightarrow> \<exists>k<n. d = exampleNewDoc (natToString k) t"
  by (induction n) (auto simp: less_Suc_eq)

lemma exampleNewDocs_oids:
  "map (\<lambda>d. oid (doc d)) (exampleNewDocs t n) = map natToString [0..<n]"
  by (induction n) (simp_all add: exampleNewDoc_def exampleEvent_def)

lemma length_exampleNewDocs: "length (exampleNewDocs t n) = n"
  by (induction n) simp_all

lemma distinct_natToString: "distinct (map natToString [0..<n])"
  by (simp add: distinct_map inj_on_def) (meson natToString_inj)

lemma example_date_ok: "normalizeDate exampleDateParse ''2024-01-05'' = Inr ''2024-01-05''"
  by (simp add: normalizeDate_def isoDateRegex_def isDigit_def exampleDateParse_def)

lemma example_time_ok: "normalizeTime ''18:30'' = Inr ''18:30''"
  by (simp add: normalizeTime_def timeRegex_def trim_def isSpace_def isDigit_def parseInt_def
      digitVal_def padStart_def natToString.simps digitChar_def)

lemma exampleNewDocs_creations:
  "spec_creations exampleDateParse [] (generateSlug t) (exampleNewDocs t n)"
proof -
  have "isNew d \<and> generateSlug (title (doc d)) = generateSlug t \<and>
        (isModified d ''date'' \<longrightarrow> \<not> isl (normalizeDate exampleDateParse (date (doc d)))) \<and>
        (isModified d ''time'' \<longrightarrow> \<not> isl (normalizeTime (time (doc d))))"
    if "d \<in> set (exampleNewDocs t n)" for d
  proof -
    from exampleNewDocs_set[OF that] obtain k where "d = exampleNewDoc (natToString k) t" by blast
    then show ?thesis
      by (simp add: exampleNewDoc_def exampleEvent_def example_date_ok example_time_ok)
  qed
  then show ?thesis
    unfolding spec_creations_def exampleNewDocs_oids using distinct_natToString by simp
qed

text \<open>
  Claim C2, as amended. The algorithm tries the base slug, then the base slug with
  \<^verbatim>\<open>-1\<close>, \<^verbatim>\<open>-2\<close>, ..., one lookup for each: when the first \<open>n\<close> candidates are taken
  and candidate \<open>n\<close> is free, with \<open>n\<close> below 100, it returns candidate \<open>n\<close> after
  looking up candidates 0 to \<open>n\<close> in order. So among at most 100 creations whose
  titles have one canonical form, while no other event holds one of the candidates,
  the N-th creation gets the base slug with \<^verbatim>\<open>-(N-1)\<close> (the first the base slug
  itself).
\<close>

theorem slug_sequence_same_base:
  "(n < 100 \<and> (\<forall>k<n. spec_slugTaken evs ex (spec_candidate (generateSlug t) k)) \<and>
      \<not> spec_slugTaken evs ex (spec_candidate (generateSlug t) n) \<longrightarrow>
      generateUniqueSlugTraced (findOneId evs) t ex =
        (Inr (spec_candidate (generateSlug t) n),
         map (\<lambda>k. slugQuery ex (spec_candidate (generateSlug t) k)) [0..<Suc n])) \<and>
   (spec_creations dateParse evs base ds \<and> length ds \<le> 100 \<longrightarrow>
      map (map_sum id slug) (fst (saveEvents dateParse now evs ds)) =
        map (\<lambda>k. Inr (spec_candidate base k)) [0..<length ds])"
proof -
  have b: "map (map_sum id slug) (fst (saveEvents dateParse now evs ds)) =
        map (\<lambda>k. Inr (spec_candidate base k)) [0..<length ds]"
    if c: "spec_creations dateParse evs base ds" and l: "length ds \<le> 100"
  proof -
    from c have p1: "\<forall>d\<in>set ds. isNew d \<and> generateSlug (title (doc d)) = base \<and>
        (isModified d ''date'' \<longrightarrow> \<not> isl (normalizeDate dateParse (date (doc d)))) \<and>
        (isModified d ''time'' \<longrightarrow> \<not> isl (normalizeTime (time (doc d)))) \<and>
        (\<forall>e\<in>set evs. oid e \<noteq> oid (doc d))"
      and p2: "distinct (map (\<lambda>d. oid (doc d)) ds)"
      and p5: "\<forall>e\<in>set evs. \<forall>k. 0 \<le> k \<and> k < 100 \<longrightarrow> slug e \<noteq> spec_candidate base k"
      unfolding spec_creations_def by auto
    from saveEvents_same_base[OF p1 p2 _ _ p5, of now] l show ?thesis by simp
  qed
  show ?thesis using generateUniqueSlugTraced_found[of n evs ex t] b by blast
qed

theorem slug_sequence_same_base_witness:
  "generateUniqueSlugTraced (findOneId [exampleEvent ''e1'' ''Meetup'' ''meetup'']) ''Meetup!'' None =
     (Inr ''meetup-1'', [BySlug ''meetup'', BySlug ''meetup-1'']) \<and>
   map (map_sum id slug) (fst (saveEvents exampleDateParse 0 [] (exampleNewDocs ''Meetup'' 3))) =
     [Inr ''meetup'', Inr ''meetup-1'', Inr ''meetup-2'']"
proof -
  let ?evs = "[exampleEvent ''e1'' ''Meetup'' ''meetup'']"
  have g: "generateSlug ''Meetup!'' = ''meetup''" "generateSlug ''Meetup'' = ''meetup''"
    by (simp_all add: slug_eval)
  have n1: "natToString 1 = ''1''" "natToString 2 = ''2''" "natToString (Suc 0) = ''1''"
    "natToString (Suc (Suc 0)) = ''2''"
    by (simp_all add: natToString.simps digitChar_def)
  have h: "(1::nat) < 100 \<and> (\<forall>k<1. spec_slugTaken ?evs None (spec_candidate (generateSlug ''Meetup!'') k)) \<and>
      \<not> spec_slugTaken ?evs None (spec_candidate (generateSlug ''Meetup!'') 1)"
    by (simp add: g n1 spec_slugTaken_def spec_candidate_def exampleEvent_def)
  have a: "generateUniqueSlugTraced (findOneId ?evs) ''Meetup!'' None =
     (Inr ''meetup-1'', [BySlug ''meetup'', BySlug ''meetup-1''])"
    using slug_sequence_same_base[where n = 1 and evs = ?evs and ex = None and t = "''Meetup!''",
        THEN conjunct1, rule_format, OF h]
    by (simp add: g n1 spec_candidate_def slugQuery_def upt_rec)
  have c: "spec_creations exampleDateParse [] ''meetup'' (exampleNewDocs ''Meetup'' 3) \<and>
           length (exampleNewDocs ''Meetup'' 3) \<le> 100"
    using exampleNewDocs_creations[of "''Meetup''" 3] by (simp add: g length_exampleNewDocs)
  have b: "map (map_sum id slug) (fst (saveEvents exampleDateParse 0 [] (exampleNewDocs ''Meetup'' 3))) =
     [Inr ''meetup'', Inr ''meetup-1'', Inr ''meetup-2'']"
    using slug_sequence_same_base[where dateParse = exampleDateParse and evs = "[]" and
          base = "''meetup''" and ds = "exampleNewDocs ''Meetup'' 3" and now = 0,
        THEN conjunct2, rule_format, OF c]
    by (simp add: length_exampleNewDocs n1 spec_candidate_def upt_rec)
  from a b show ?thesis by blast
qed

lemma saveEvents_101st_fails:
  "length (exampleNewDocs ''Meetup'' 101) = 101 \<and>
   fst (saveEvents exampleDateParse 0 [] (exampleNewDocs ''Meetup'' 101)) ! 100 =
     Inl (newError ''Unable to generate unique slug after 100 attempts'')"
proof -
  let ?t = "''Meetup''"
  let ?base = "generateSlug ?t"
  let ?ds = "exampleNewDocs ?t 100"
  let ?d = "exampleNewDoc (natToString 100) ?t"
  let ?S = "snd (saveEvents exampleDateParse 0 [] ?ds)"
  from exampleNewDocs_creations[of ?t 100]
  have p1: "\<forall>d\<in>set ?ds. isNew d \<and> generateSlug (title (doc d)) = ?base \<and>
        (isModified d ''date'' \<longrightarrow> \<not> isl (normalizeDate exampleDateParse (date (doc d)))) \<and>
        (isModified d ''time'' \<longrightarrow> \<not> isl (normalizeTime (time (doc d)))) \<and>
        (\<forall>e\<in>set []. oid e \<noteq> oid (doc d))"
    and p2: "distinct (map (\<lambda>d. oid (doc d)) ?ds)"
    unfolding spec_creations_def by auto
  from saveEvents_same_base[OF p1 p2, of 0 0]
  have taken: "\<forall>k<100. \<exists>e\<in>set ?S. slug e = spec_candidate ?base k"
    and oids: "oid ` set ?S = (\<lambda>d. oid (doc d)) ` set ?ds"
    by (simp_all add: length_exampleNewDocs)
  have o2: "(\<lambda>d. oid (doc d)) ` set ?ds = set (map natToString [0..<100])"
    using exampleNewDocs_oids[of ?t 100] by (metis set_map)
  have "\<forall>e\<in>set ?S. \<exists>k<100. oid e = natToString k"
  proof
    fix e assume "e \<in> set ?S"
    then have "oid e \<in> oid ` set ?S" by (rule imageI)
    then have "oid e \<in> set (map natToString [0..<100])" unfolding oids o2 .
    then show "\<exists>k<100. oid e = natToString k" by auto
  qed
  then have "\<forall>e\<in>set ?S. oid e \<noteq> natToString 100"
    using natToString_inj by fastforce
  then have fresh: "\<forall>e\<in>set ?S. oid e \<noteq> oid (doc ?d)"
    by (simp add: exampleNewDoc_def exampleEvent_def)
  have d: "isNew ?d" "generateSlug (title (doc ?d)) = ?base"
    by (simp_all add: exampleNewDoc_def exampleEvent_def)
  from saveEvent_exhausted[OF d fresh taken, of exampleDateParse 0]
  have last: "saveEvents exampleDateParse 0 ?S [?d] =
      ([Inl (newError ''Unable to generate unique slug after 100 attempts'')], ?S)"
    by simp
  have "(101::nat) = Suc 100" by simp
  then have split: "exampleNewDocs ?t 101 = ?ds @ [?d]" by (simp only: exampleNewDocs.simps)
  have "fst (saveEvents exampleDateParse 0 [] (exampleNewDocs ?t 101)) ! 100 =
        (fst (saveEvents exampleDateParse 0 [] ?ds) @
           [Inl (newError ''Unable to generate unique slug after 100 attempts'')]) ! 100"
    unfolding split saveEvents_append last by simp
  also have "\<dots> = Inl (newError ''Unable to generate unique slug after 100 attempts'')"
    using length_saveEvents[of exampleDateParse 0 "[]" ?ds]
    by (simp add: length_exampleNewDocs nth_append)
  finally show ?thesis by (simp add: length_exampleNewDocs)
qed

text \<open>
  Claim C2 as stated fails in two ways. Starting from an empty collection, the 101st
  creation with one title does not get the base slug with \<^verbatim>\<open>-100\<close>: all of the 100
  candidates are taken and the creation fails. And a creation with another base slug
  can take a candidate: after \<^verbatim>\<open>Meetup 1\<close> (slug \<^verbatim>\<open>meetup-1\<close>), the second creation
  titled \<^verbatim>\<open>Meetup\<close> gets \<^verbatim>\<open>meetup-2\<close>, not \<^verbatim>\<open>meetup-1\<close>.
\<close>

theorem slug_sequence_counterexample:
  "length (exampleNewDocs ''Meetup'' 101) = 101 \<and>
   fst (saveEvents exampleDateParse 0 [] (exampleNewDocs ''Meetup'' 101)) ! 100 =
     Inl (newError ''Unable to generate unique slug after 100 attempts'') \<and>
   map (map_sum id slug)
     (fst (saveEvents exampleDateParse 0 []
        [exampleNewDoc ''a'' ''Meetup 1'', exampleNewDoc ''b'' ''Meetup'',
         exampleNewDoc ''c'' ''Meetup''])) =
     [Inr ''meetup-1'', Inr ''meetup'', Inr ''meetup-2'']"
proof -
  have "map (map_sum id slug)
     (fst (saveEvents exampleDateParse 0 []
        [exampleNewDoc ''a'' ''Meetup 1'', exampleNewDoc ''b'' ''Meetup'',
         exampleNewDoc ''c'' ''Meetup''])) =
     [Inr ''meetup-1'', Inr ''meetup'', Inr ''meetup-2'']"
    by code_simp
  with saveEvents_101st_fails show ?thesis by blast
qed

section \<open>Transactional booking operations and the connection manager\<close>

lemma castObjectId_malformed:
  "newObjectId s = None \<Longrightarrow> castObjectId modelName (IdString s) = Inl (castError s modelName)"
  by (simp add: castObjectId_def)

lemma find_oid_None: "find (\<lambda>x. oid x = i) docs = None \<longleftrightarrow> (\<forall>x\<in>set docs. oid x \<noteq> i)"
  by (auto simp: find_None_iff)

lemmas session_defs = startSession_def startTransaction_def commitTransaction_def
  abortTransaction_def endSession_def

lemmas id_eval = castObjectId_def newObjectId_def isHexDigit_def toLowerCase_def lowerChar_def

lemma create_missing:
  assumes "castObjectId ''Event'' evId = Inr i" "\<forall>e\<in>set (events db). oid e \<noteq> i"
  shows "createBookingWithTransaction db newId now evId mail =
           (Inl (newError (''Event with ID '' @ idText evId @ '' does not exist'')), db,
            \<lparr>txBookings = bookings db,
             calls = [StartSession, StartTransaction, AbortTransaction, EndSession]\<rparr>)"
proof -
  have "findById ''Event'' (events db) evId = Inr None"
    using assms by (simp add: findById_def find_oid_None)
  then show ?thesis
    by (simp add: createBookingWithTransaction_def Let_def session_defs rethrow_def newError_def)
qed

lemma create_malformed:
  assumes "newObjectId s = None"
  shows "createBookingWithTransaction db newId now (IdString s) mail =
           (Inl (castError s ''Event''), db,
            \<lparr>txBookings = bookings db,
             calls = [StartSession, StartTransaction, AbortTransaction, EndSession]\<rparr>)"
proof -
  have "findById ''Event'' (events db) (IdString s) = Inl (castError s ''Event'')"
    using castObjectId_malformed[OF assms] by (simp add: findById_def)
  then show ?thesis
    by (simp add: createBookingWithTransaction_def Let_def session_defs rethrow_def castError_def)
qed

text \<open>
  Claim C1, as amended. When the identifier is an ObjectId, or the text of one, and is
  the \<^verbatim>\<open>_id\<close> of no event, \<^verbatim>\<open>createBookingWithTransaction\<close> fails with the error saying
  that the event does not exist (an \<^verbatim>\<open>Error\<close> with the message
  \<^verbatim>\<open>Event with ID ... does not exist\<close>); when it is a string that is not the text of an
  ObjectId, the call fails with the CastError of the lookup instead. In both cases the
  transaction was aborted and the session ended before the error is thrown, and the
  database is as it was, so no booking is persisted.
\<close>

theorem createBooking_missing_event:
  "(castObjectId ''Event'' evId = Inr i \<and> (\<forall>e\<in>set (events db). oid e \<noteq> i) \<longrightarrow>
      createBookingWithTransaction db newId now evId mail =
        (Inl (newError (''Event with ID '' @ idText evId @ '' does not exist'')), db,
         \<lparr>txBookings = bookings db,
          calls = [StartSession, StartTransaction, AbortTransaction, EndSession]\<rparr>)) \<and>
   (newObjectId s = None \<longrightarrow>
      createBookingWithTransaction db newId now (IdString s) mail =
        (Inl (castError s ''Event''), db,
         \<lparr>txBookings = bookings db,
          calls = [StartSession, StartTransaction, AbortTransaction, EndSession]\<rparr>))"
  using create_missing[of evId i db newId now mail] create_malformed[of s db newId now mail]
  by blast

theorem createBooking_missing_event_witness:
  "createBookingWithTransaction exampleDatabase ''65a1b2c3d4e5f60718293b03'' 7
       (IdString ''65A1B2C3D4E5F60718293A77'') ''cat@example.org'' =
     (Inl (newError ''Event with ID 65A1B2C3D4E5F60718293A77 does not exist''), exampleDatabase,
      \<lparr>txBookings = bookings exampleDatabase,
       calls = [StartSession, StartTransaction, AbortTransaction, EndSession]\<rparr>) \<and>
   createBookingWithTransaction exampleDatabase ''65a1b2c3d4e5f60718293b03'' 7
       (IdObject ''65a1b2c3d4e5f60718293a02'') ''cat@example.org'' =
     (Inl (newError ''Event with ID 65a1b2c3d4e5f60718293a02 does not exist''), exampleDatabase,
      \<lparr>txBookings = bookings exampleDatabase,
       calls = [StartSession, StartTransaction, AbortTransaction, EndSession]\<rparr>) \<and>
   createBookingWithTransaction exampleDatabase ''65a1b2c3d4e5f60718293b03'' 7
       (IdString ''not-an-id'') ''cat@example.org'' =
     (Inl (castError ''not-an-id'' ''Event''), exampleDatabase,
      \<lparr>txBookings = bookings exampleDatabase,
       calls = [StartSession, StartTransaction, AbortTransaction, EndSession]\<rparr>)"
proof -
  let ?new = "''65a1b2c3d4e5f60718293b03''"
  have h1: "castObjectId ''Event'' (IdString ''65A1B2C3D4E5F60718293A77'') = Inr ''65a1b2c3d4e5f60718293a77'' \<and>
            (\<forall>e\<in>set (events exampleDatabase). oid e \<noteq> ''65a1b2c3d4e5f60718293a77'')"
    by (simp add: id_eval exampleDatabase_def exampleEvent_def)
  have h2: "castObjectId ''Event'' (IdObject ''65a1b2c3d4e5f60718293a02'') = Inr ''65a1b2c3d4e5f60718293a02'' \<and>
            (\<forall>e\<in>set (events exampleDatabase). oid e \<noteq> ''65a1b2c3d4e5f60718293a02'')"
    by (simp add: id_eval exampleDatabase_def exampleEvent_def)
  have h3: "newObjectId ''not-an-id'' = None"
    by (simp add: newObjectId_def)
  have a: "createBookingWithTransaction exampleDatabase ?new 7
       (IdString ''65A1B2C3D4E5F60718293A77'') ''cat@example.org'' =
     (Inl (newError ''Event with ID 65A1B2C3D4E5F60718293A77 does not exist''), exampleDatabase,
      \<lparr>txBookings = bookings exampleDatabase,
       calls = [StartSession, StartTransaction, AbortTransaction, EndSession]\<rparr>)"
    using createBooking_missing_event[where evId = "IdString ''65A1B2C3D4E5F60718293A77''"
        and db = exampleDatabase and newId = ?new and now = 7 and mail = "''cat@example.org''",
        THEN conjunct1, rule_format, OF h1]
    by (simp add: idText_def)
  have b: "createBookingWithTransaction exampleDatabase ?new 7
       (IdObject ''65a1b2c3d4e5f60718293a02'') ''cat@example.org'' =
     (Inl (newError ''Event with ID 65a1b2c3d4e5f60718293a02 does not exist''), exampleDatabase,
      \<lparr>txBookings = bookings exampleDatabase,
       calls = [StartSession, StartTransaction, AbortTransaction, EndSession]\<rparr>)"
    using createBooking_missing_event[where evId = "IdObject ''65a1b2c3d4e5f60718293a02''"
        and db = exampleDatabase and newId = ?new and now = 7 and mail = "''cat@example.org''",
        THEN conjunct1, rule_format, OF h2]
    by (simp add: idText_def)
  have c: "createBookingWithTransaction exampleDatabase ?new 7
       (IdString ''not-an-id'') ''cat@example.org'' =
     (Inl (castError ''not-an-id'' ''Event''), exampleDatabase,
      \<lparr>txBookings = bookings exampleDatabase,
       calls = [StartSession, StartTransaction, AbortTransaction, EndSession]\<rparr>)"
    using createBooking_missing_event[where s = "''not-an-id''"
        and db = exampleDatabase and newId = ?new and now = 7 and mail = "''cat@example.org''",
        THEN conjunct2, rule_format, OF h3] .
  from a b c show ?thesis by blast
qed

text \<open>
  Claim C1 as stated fails for an identifier that is no event's and not the text of an
  ObjectId: for \<^verbatim>\<open>e2\<close> the lookup itself throws, and the call fails with the CastError,
  not with the error saying that the event does not exist.
\<close>

theorem createBooking_malformed_id_counterexample:
  "createBookingWithTransaction exampleDatabase ''65a1b2c3d4e5f60718293b03'' 7
       (IdString ''e2'') ''cat@example.org'' =
     (Inl (Error ''CastError''
        (''Cast to ObjectId failed for value '' @ [CHR 0x22] @ ''e2'' @ [CHR 0x22] @
         '' (type string) at path '' @ [CHR 0x22] @ ''_id'' @ [CHR 0x22] @
         '' for model '' @ [CHR 0x22] @ ''Event'' @ [CHR 0x22])),
      exampleDatabase,
      \<lparr>txBookings = bookings exampleDatabase,
       calls = [StartSession, StartTransaction, AbortTransaction, EndSession]\<rparr>) \<and>
   castError ''e2'' ''Event'' \<noteq> newError ''Event with ID e2 does not exist''"
proof -
  have "newObjectId ''e2'' = None" by (simp add: newObjectId_def)
  from create_malformed[OF this, of exampleDatabase "''65a1b2c3d4e5f60718293b03''" 7 "''cat@example.org''"]
  show ?thesis by (simp add: castError_def newError_def)
qed

lemma delete_cast:
  assumes "castObjectId ''Booking'' a = Inr i"
  shows "deleteBookingWithTransaction db a =
     (Inr (find (\<lambda>x. oid x = i) (bookings db) \<noteq> None),
      db\<lparr>bookings := filter (\<lambda>x. oid x \<noteq> i) (bookings db)\<rparr>,
      \<lparr>txBookings = filter (\<lambda>x. oid x \<noteq> i) (bookings db),
       calls = [StartSession, StartTransaction, CommitTransaction, EndSession]\<rparr>)"
  using assms
  by (simp add: deleteBookingWithTransaction_def Let_def session_defs Booking_findByIdAndDelete_def)

lemma delete_malformed:
  assumes "newObjectId s = None"
  shows "deleteBookingWithTransaction db (IdString s) =
     (Inl (castError s ''Booking''), db,
      \<lparr>txBookings = bookings db,
       calls = [StartSession, StartTransaction, AbortTransaction, EndSession]\<rparr>)"
  using castObjectId_malformed[OF assms, of "''Booking''"]
  by (simp add: deleteBookingWithTransaction_def Let_def session_defs Booking_findByIdAndDelete_def
      rethrow_def castError_def)

lemma filter_absent: "\<forall>x\<in>set xs. oid x \<noteq> i \<Longrightarrow> filter (\<lambda>x. oid x \<noteq> i) xs = xs"
  by (induction xs) auto

lemma delete_absent:
  assumes "castObjectId ''Booking'' a = Inr i" "\<forall>b\<in>set (bookings db). oid b \<noteq> i"
  shows "deleteBookingWithTransaction db a =
     (Inr False, db,
      \<lparr>txBookings = bookings db,
       calls = [StartSession, StartTransaction, CommitTransaction, EndSession]\<rparr>)"
  using assms(2) by (simp add: delete_cast[OF assms(1)] filter_absent find_oid_None)

lemma deleteRepeatedly_absent:
  assumes "castObjectId ''Booking'' a = Inr i" "\<forall>b\<in>set (bookings db). oid b \<noteq> i"
  shows "deleteRepeatedly n db a = (replicate n (Inr False), db)"
  by (induction n) (simp_all add: delete_absent[OF assms])

text \<open>
  Claim C7, as amended. For an identifier that is an ObjectId, or the text of one,
  \<^verbatim>\<open>deleteBookingWithTransaction\<close> does not throw: when no booking has that \<^verbatim>\<open>_id\<close> it
  commits and returns \<^verbatim>\<open>false\<close>, leaving the database as it was; when one has, that
  booking is removed and the call returns \<^verbatim>\<open>true\<close>, and every later call with the same
  identifier returns \<^verbatim>\<open>false\<close>. For a string that is not the text of an ObjectId the
  call aborts the transaction and throws the CastError of the lookup, and the database
  is as it was.
\<close>

theorem deleteBooking_idempotent:
  "(castObjectId ''Booking'' a = Inr i \<longrightarrow>
      (\<exists>r. fst (deleteBookingWithTransaction db a) = Inr r) \<and>
      ((\<forall>b\<in>set (bookings db). oid b \<noteq> i) \<longrightarrow>
         deleteBookingWithTransaction db a =
           (Inr False, db,
            \<lparr>txBookings = bookings db,
             calls = [StartSession, StartTransaction, CommitTransaction, EndSession]\<rparr>)) \<and>
      ((\<exists>b\<in>set (bookings db). oid b = i) \<longrightarrow>
         deleteRepeatedly (Suc n) db a =
           (Inr True # replicate n (Inr False),
            db\<lparr>bookings := filter (\<lambda>b. oid b \<noteq> i) (bookings db)\<rparr>))) \<and>
   (newObjectId s = None \<longrightarrow>
      deleteBookingWithTransaction db (IdString s) =
        (Inl (castError s ''Booking''), db,
         \<lparr>txBookings = bookings db,
          calls = [StartSession, StartTransaction, AbortTransaction, EndSession]\<rparr>))"
proof -
  have x: "\<exists>r. fst (deleteBookingWithTransaction db a) = Inr r"
    if "castObjectId ''Booking'' a = Inr i"
    by (simp add: delete_cast[OF that])
  have c: "deleteRepeatedly (Suc n) db a =
        (Inr True # replicate n (Inr False),
         db\<lparr>bookings := filter (\<lambda>b. oid b \<noteq> i) (bookings db)\<rparr>)"
    if cast: "castObjectId ''Booking'' a = Inr i" and ex: "\<exists>b\<in>set (bookings db). oid b = i"
  proof -
    let ?db = "db\<lparr>bookings := filter (\<lambda>b. oid b \<noteq> i) (bookings db)\<rparr>"
    have "find (\<lambda>x. oid x = i) (bookings db) \<noteq> None"
      using ex find_oid_None[of i "bookings db"] by auto
    then have first: "deleteBookingWithTransaction db a =
        (Inr True, ?db, \<lparr>txBookings = filter (\<lambda>x. oid x \<noteq> i) (bookings db),
       calls = [StartSession, StartTransaction, CommitTransaction, EndSession]\<rparr>)"
      by (simp add: delete_cast[OF cast])
    have "\<forall>b\<in>set (bookings ?db). oid b \<noteq> i" by simp
    from deleteRepeatedly_absent[OF cast this, of n] first show ?thesis by simp
  qed
  show ?thesis using x delete_absent[of a i db] c delete_malformed[of s db] by blast
qed

theorem deleteBooking_idempotent_witness:
  "deleteBookingWithTransaction exampleDatabase (IdObject ''65a1b2c3d4e5f60718293b09'') =
     (Inr False, exampleDatabase,
      \<lparr>txBookings = bookings exampleDatabase,
       calls = [StartSession, StartTransaction, CommitTransaction, EndSession]\<rparr>) \<and>
   deleteRepeatedly 3 exampleDatabase (IdString ''65A1B2C3D4E5F60718293B01'') =
     ([Inr True, Inr False, Inr False],
      exampleDatabase\<lparr>bookings :=
        [exampleBooking ''65a1b2c3d4e5f60718293b02'' ''65a1b2c3d4e5f60718293a01'' ''bob@example.org'']\<rparr>) \<and>
   deleteBookingWithTransaction exampleDatabase (IdString ''not-an-id'') =
     (Inl (castError ''not-an-id'' ''Booking''), exampleDatabase,
      \<lparr>txBookings = bookings exampleDatabase,
       calls = [StartSession, StartTransaction, AbortTransaction, EndSession]\<rparr>)"
proof -
  let ?b1 = "''65a1b2c3d4e5f60718293b01''"
  let ?b9 = "''65a1b2c3d4e5f60718293b09''"
  have c9: "castObjectId ''Booking'' (IdObject ?b9) = Inr ?b9" by (simp add: castObjectId_def)
  have c1: "castObjectId ''Booking'' (IdString ''65A1B2C3D4E5F60718293B01'') = Inr ?b1"
    by (simp add: id_eval)
  have h1: "\<forall>b\<in>set (bookings exampleDatabase). oid b \<noteq> ?b9"
    by (simp add: exampleDatabase_def exampleBooking_def)
  have h2: "\<exists>b\<in>set (bookings exampleDatabase). oid b = ?b1"
    by (simp add: exampleDatabase_def exampleBooking_def)
  have h3: "newObjectId ''not-an-id'' = None" by (simp add: newObjectId_def)
  have three: "(3::nat) = Suc 2" by simp
  have a: "deleteBookingWithTransaction exampleDatabase (IdObject ?b9) =
     (Inr False, exampleDatabase,
      \<lparr>txBookings = bookings exampleDatabase,
       calls = [StartSession, StartTransaction, CommitTransaction, EndSession]\<rparr>)"
    using deleteBooking_idempotent[where a = "IdObject ?b9" and i = ?b9 and db = exampleDatabase,
        THEN conjunct1, rule_format, OF c9] h1 by blast
  have "deleteRepeatedly (Suc 2) exampleDatabase (IdString ''65A1B2C3D4E5F60718293B01'') =
        (Inr True # replicate 2 (Inr False),
         exampleDatabase\<lparr>bookings := filter (\<lambda>b. oid b \<noteq> ?b1) (bookings exampleDatabase)\<rparr>)"
    using deleteBooking_idempotent[where a = "IdString ''65A1B2C3D4E5F60718293B01''" and i = ?b1
        and db = exampleDatabase and n = 2, THEN conjunct1, rule_format, OF c1] h2 by blast
  then have b: "deleteRepeatedly 3 exampleDatabase (IdString ''65A1B2C3D4E5F60718293B01'') =
     ([Inr True, Inr False, Inr False],
      exampleDatabase\<lparr>bookings :=
        [exampleBooking ''65a1b2c3d4e5f60718293b02'' ''65a1b2c3d4e5f60718293a01'' ''bob@example.org'']\<rparr>)"
    unfolding three by (simp add: exampleDatabase_def exampleBooking_def numeral_2_eq_2)
  have c: "deleteBookingWithTransaction exampleDatabase (IdString ''not-an-id'') =
     (Inl (castError ''not-an-id'' ''Booking''), exampleDatabase,
      \<lparr>txBookings = bookings exampleDatabase,
       calls = [StartSession, StartTransaction, AbortTransaction, EndSession]\<rparr>)"
    using deleteBooking_idempotent[where s = "''not-an-id''" and db = exampleDatabase,
        THEN conjunct2, rule_format, OF h3] .
  from a b c show ?thesis by blast
qed

text \<open>
  Claim C7 as stated fails for an identifier that matches no booking and is not the
  text of an ObjectId: for \<^verbatim>\<open>b9\<close> the call does not commit and return \<^verbatim>\<open>false\<close>, it
  aborts and throws the CastError.
\<close>

theorem deleteBooking_malformed_id_counterexample:
  "deleteBookingWithTransaction exampleDatabase (IdString ''b9'') =
     (Inl (Error ''CastError''
        (''Cast to ObjectId failed for value '' @ [CHR 0x22] @ ''b9'' @ [CHR 0x22] @
         '' (type string) at path '' @ [CHR 0x22] @ ''_id'' @ [CHR 0x22] @
         '' for model '' @ [CHR 0x22] @ ''Booking'' @ [CHR 0x22])),
      exampleDatabase,
      \<lparr>txBookings = bookings exampleDatabase,
       calls = [StartSession, StartTransaction, AbortTransaction, EndSession]\<rparr>)"
proof -
  have "newObjectId ''b9'' = None" by (simp add: newObjectId_def)
  from delete_malformed[OF this, of exampleDatabase] show ?thesis by (simp add: castError_def)
qed

lemma connectCalls_cached:
  "conn cached = Some h \<Longrightarrow> connectCalls outcomes cached = (map (\<lambda>outcome. (Inr h, False)) outcomes, cached)"
  by (induction outcomes) (simp_all add: connectDB_def)

text \<open>
  Claim C8. A call that finds no connection and whose attempt fails (the one it starts,
  or the one in flight) clears the marker of the attempt in flight and propagates the
  failure; the cache is then as with no attempt in flight, and the next call starts a
  fresh attempt, whose outcome it returns. Once a connection is cached, each later
  call returns that connection and starts no attempt.
\<close>

theorem connectDB_retry_and_cache:
  "(conn cached = None \<and>
      (promise cached = None \<and> outcome = Inl e \<or> promise cached = Some (Inl e)) \<longrightarrow>
      connectDB outcome cached = (Inl e, cached\<lparr>promise := None\<rparr>, promise cached = None) \<and>
      connectDB later (cached\<lparr>promise := None\<rparr>) =
        (later, (case later of Inl e' \<Rightarrow> cached\<lparr>promise := None\<rparr>
                | Inr c \<Rightarrow> cached\<lparr>promise := Some (Inr c), conn := Some c\<rparr>), True)) \<and>
   (conn cached = Some h \<longrightarrow>
      connectDB outcome cached = (Inr h, cached, False) \<and>
      connectCalls outcomes cached = (map (\<lambda>outcome. (Inr h, False)) outcomes, cached))"
proof -
  have a: "connectDB outcome cached = (Inl e, cached\<lparr>promise := None\<rparr>, promise cached = None)"
    if "conn cached = None" "promise cached = None \<and> outcome = Inl e \<or> promise cached = Some (Inl e)"
    using that by (auto simp: connectDB_def Let_def)
  have b: "connectDB later (cached\<lparr>promise := None\<rparr>) =
        (later, (case later of Inl e' \<Rightarrow> cached\<lparr>promise := None\<rparr>
                | Inr c \<Rightarrow> cached\<lparr>promise := Some (Inr c), conn := Some c\<rparr>), True)"
    if "conn cached = None"
    using that by (cases later) (simp_all add: connectDB_def Let_def)
  have c: "connectDB outcome cached = (Inr h, cached, False)" if "conn cached = Some h"
    using that by (simp add: connectDB_def)
  show ?thesis using a b c connectCalls_cached[of cached h outcomes] by blast
qed

theorem connectDB_retry_and_cache_witness:
  "connectCalls [Inl (newError ''refused''), Inr (1::nat), Inr 2, Inl (newError ''refused'')]
     \<lparr>conn = None, promise = None\<rparr> =
     ([(Inl (newError ''refused''), True), (Inr 1, True), (Inr 1, False), (Inr 1, False)],
      \<lparr>conn = Some 1, promise = Some (Inr 1)\<rparr>)"
proof -
  let ?c0 = "\<lparr>conn = None, promise = None\<rparr> :: nat mongooseCache"
  let ?c1 = "\<lparr>conn = Some 1, promise = Some (Inr 1)\<rparr> :: nat mongooseCache"
  let ?e = "newError ''refused''"
  have h0: "conn ?c0 = None \<and> (promise ?c0 = None \<and> (Inl ?e :: exn + nat) = Inl ?e \<or> promise ?c0 = Some (Inl ?e))"
    by simp
  note T0 = connectDB_retry_and_cache[where cached = ?c0 and outcome = "Inl ?e" and e = ?e
      and later = "Inr 1", THEN conjunct1, rule_format, OF h0]
  have s1: "connectDB (Inl ?e) ?c0 = (Inl ?e, ?c0, True)" using T0 by simp
  have s2: "connectDB (Inr 1) ?c0 = (Inr 1, ?c1, True)" using T0 by simp
  have h1: "conn ?c1 = Some 1" by simp
  note T1 = connectDB_retry_and_cache[where cached = ?c1 and h = 1
      and outcomes = "[Inr 2, Inl ?e]", THEN conjunct2, rule_format, OF h1]
  have s3: "connectCalls [Inr 2, Inl ?e] ?c1 = ([(Inr 1, False), (Inr 1, False)], ?c1)"
    using T1 by simp
  show ?thesis using s1 s2 s3 by simp
qed

section \<open>Date normalisation on the Node runtime\<close>

text \<open>
  Claim C6, at the failing inputs. \<^verbatim>\<open>2024-02-30\<close> has the canonical pattern and is no
  calendar date; Node reads \<^verbatim>\<open>2024-02-30T00:00:00Z\<close> as 1 March 2024, so
  \<^verbatim>\<open>normalizeDate\<close> returns \<^verbatim>\<open>2024-02-30\<close> unchanged. And when the parser reads
  \<^verbatim>\<open>2024-1-5\<close> in a local zone east of UTC, \<^verbatim>\<open>normalizeDate\<close> returns the UTC date of
  that instant, \<^verbatim>\<open>2024-01-04\<close>.
\<close>

theorem normalizeDate_accepts_february_30:
  "normalizeDate nodeParseUtcMidnight ''2024-02-30'' = Inr ''2024-02-30'' \<and>
   map_option Date_toISOString (nodeParseUtcMidnight ''2024-02-30T00:00:00Z'') =
     Some ''2024-03-01T00:00:00.000Z'' \<and>
   normalizeDate exampleLocalParse ''2024-1-5'' = Inr ''2024-01-04''"
  by code_simp

end
